theory Spec2Isabelle
  imports Complex_Main "HOL-Library.Monad_Syntax"
begin

section \<open>Grid fields\<close>

text \<open>
  A NumPy array of shape \<open>(m, n)\<close> is a list of \<open>m\<close> rows of \<open>n\<close> samples each.
  The samples are reals: the development is about the arithmetic the source writes
  down, evaluated exactly, not about its rounding to 32-bit floats.
\<close>

type_synonym field = "real list list"

definition nrows :: "'a list list \<Rightarrow> nat" where
  "nrows z = length z"

definition ncols :: "'a list list \<Rightarrow> nat" where
  "ncols z = (case z of [] \<Rightarrow> 0 | row # _ \<Rightarrow> length row)"

definition shape :: "'a list list \<Rightarrow> nat \<times> nat" where
  "shape z = (nrows z, ncols z)"

text \<open>\<open>rect m n z\<close>: the list of lists \<open>z\<close> is an array of shape \<open>(m, n)\<close>.\<close>

definition rect :: "nat \<Rightarrow> nat \<Rightarrow> 'a list list \<Rightarrow> bool" where
  "rect m n z \<longleftrightarrow> length z = m \<and> list_all (\<lambda>row. length row = n) z"

text \<open>The sum of all samples of an array (\<open>z.sum()\<close>).\<close>

definition total :: "field \<Rightarrow> real" where
  "total z = sum_list (map sum_list z)"

subsection \<open>Elementwise arithmetic on arrays of one shape\<close>

definition add :: "field \<Rightarrow> field \<Rightarrow> field" where
  "add a b = map2 (map2 (+)) a b"

definition sub :: "field \<Rightarrow> field \<Rightarrow> field" where
  "sub a b = map2 (map2 (-)) a b"

text \<open>\<open>c * z\<close> for a Python scalar \<open>c\<close>.\<close>

definition scal :: "real \<Rightarrow> field \<Rightarrow> field" where
  "scal c z = map (map ((*) c)) z"

section \<open>The periodic Laplacian\<close>

text \<open>
  \<open>np.roll(xs, k)\<close> on one axis: the element at index \<open>i\<close> moves to index
  \<open>(i + k) mod length xs\<close>, that is, the list is rotated to the left by \<open>-k\<close>.
\<close>

definition roll :: "int \<Rightarrow> 'a list \<Rightarrow> 'a list" where
  "roll k xs = rotate (nat ((- k) mod int (length xs))) xs"

text \<open>\<open>np.roll(z, k, axis=0)\<close> shifts the rows, \<open>np.roll(z, k, axis=1)\<close> shifts within each row.\<close>

definition roll_axis0 :: "int \<Rightarrow> 'a list list \<Rightarrow> 'a list list" where
  "roll_axis0 k z = roll k z"

definition roll_axis1 :: "int \<Rightarrow> 'a list list \<Rightarrow> 'a list list" where
  "roll_axis1 k z = map (roll k) z"

text \<open>
  \<open>laplacian\<close> of the source. All five operands are the array \<open>z\<close> itself, shifted or
  scaled, so they have one shape and the sums are plain elementwise sums.
\<close>

definition laplacian :: "field \<Rightarrow> field" where
  "laplacian z =
     sub (add (add (add (roll_axis0 1 z) (roll_axis0 (- 1) z)) (roll_axis1 1 z)) (roll_axis1 (- 1) z))
         (scal 4 z)"

subsection \<open>Arrays given cell by cell\<close>

text \<open>The array of shape \<open>(m, n)\<close> whose cell \<open>(i, j)\<close> holds \<open>f i j\<close>.\<close>

definition tab :: "nat \<Rightarrow> nat \<Rightarrow> (nat \<Rightarrow> nat \<Rightarrow> 'a) \<Rightarrow> 'a list list" where
  "tab m n f = map (\<lambda>i. map (\<lambda>j. f i j) [0..<n]) [0..<m]"

text \<open>A NumPy universal function applied to every sample, and the elementwise product.\<close>

definition amap :: "(real \<Rightarrow> real) \<Rightarrow> field \<Rightarrow> field" where
  "amap f z = map (map f) z"

definition mul :: "field \<Rightarrow> field \<Rightarrow> field" where
  "mul a b = map2 (map2 (*)) a b"

section \<open>The advection map\<close>

text \<open>
  \<open>np.meshgrid(np.arange(n), np.arange(n), indexing="ij")\<close>: the first array holds the
  row index of each cell, the second its column index.
\<close>

definition meshgrid_ij :: "nat \<Rightarrow> field \<times> field" where
  "meshgrid_ij n = (tab n n (\<lambda>i j. real i), tab n n (\<lambda>i j. real j))"

text \<open>
  \<open>build_keplerian_coords\<close> of the source, statement by statement. The result is the pair
  \<open>(y_warp, x_warp)\<close>, the two slices \<open>coords[0]\<close> (row source) and \<open>coords[1]\<close>
  (column source) of the array the source returns.
\<close>

definition build_keplerian_coords :: "nat \<Rightarrow> real \<Rightarrow> field \<times> field" where
  "build_keplerian_coords n rotation_strength =
     (case meshgrid_ij n of (y, x) \<Rightarrow>
        let center = real (n div 2);
            dx = amap (\<lambda>v. v - center) x;
            dy = amap (\<lambda>v. v - center) y;
            r = amap sqrt (add (mul dx dx) (mul dy dy));
            r = amap (\<lambda>v. if v = 0 then 1 else v) r;
            theta = amap (\<lambda>v. rotation_strength * (1 / v)) r;
            cos_t = amap cos theta;
            sin_t = amap sin theta;
            x_warp = amap (\<lambda>v. v + center) (sub (mul dx cos_t) (mul dy sin_t));
            y_warp = amap (\<lambda>v. v + center) (add (mul dx sin_t) (mul dy cos_t))
        in (y_warp, x_warp))"

section \<open>Initial fields\<close>

text \<open>
  A bound \<open>k\<close> of a Python slice, taken against an axis of length \<open>n\<close>: a negative bound
  counts from the end, and the bound is clipped to the axis.
\<close>

definition py_slice_bound :: "nat \<Rightarrow> int \<Rightarrow> nat" where
  "py_slice_bound n k = (if k < 0 then nat (max 0 (k + int n)) else min (nat k) n)"

definition in_slice :: "nat \<Rightarrow> int \<Rightarrow> int \<Rightarrow> nat \<Rightarrow> bool" where
  "in_slice n a b i \<longleftrightarrow> py_slice_bound n a \<le> i \<and> i < py_slice_bound n b"

text \<open>\<open>z[sl, sl] = v\<close> for \<open>sl = slice(a, b)\<close>.\<close>

definition assign_block :: "field \<Rightarrow> int \<Rightarrow> int \<Rightarrow> real \<Rightarrow> field" where
  "assign_block z a b v =
     tab (nrows z) (ncols z)
       (\<lambda>i j. if in_slice (nrows z) a b i \<and> in_slice (ncols z) a b j then v else z ! i ! j)"

text \<open>Rounding to the nearest integer, a tie going to the even one.\<close>

definition round_half_even :: "real \<Rightarrow> int" where
  "round_half_even y =
     (let f = \<lfloor>y\<rfloor>; d = y - of_int f
      in if d < 1 / 2 then f else if 1 / 2 < d then f + 1 else if even f then f else f + 1)"

text \<open>
  \<open>.astype(np.float32)\<close> on one value: the nearest number with a significand of 24 bits,
  a tie going to the even significand. Below the exponent \<open>-126\<close> the spacing stays that of
  the exponent \<open>-126\<close>. (A value too large for the format becomes infinite in NumPy; no number
  below 1 is.)
\<close>

definition astype_float32 :: "real \<Rightarrow> real" where
  "astype_float32 x =
     (if x = 0 then 0
      else let e = max \<lfloor>log 2 \<bar>x\<bar>\<rfloor> (- 126);
               ulp = 2 powr (of_int e - 23)
           in of_int (round_half_even (x / ulp)) * ulp)"

text \<open>
  \<open>initialize_fields\<close> of the source. The random samples are an input: \<open>rnd i j\<close> is the
  number \<open>np.random.random((n, n))\<close> draws for cell \<open>(i, j)\<close>, a float64 in \<open>[0, 1)\<close>; the
  source casts it to float32 before it scales it. The other arithmetic is exact here.
\<close>

definition initialize_fields :: "nat \<Rightarrow> int \<Rightarrow> real \<Rightarrow> (nat \<Rightarrow> nat \<Rightarrow> real) \<Rightarrow> field \<times> field" where
  "initialize_fields n seed_radius noise_level rnd =
     (let g = tab n n (\<lambda>i j. 1);
          r = tab n n (\<lambda>i j. 0);
          center = int n div 2;
          lo = center - seed_radius;
          hi = center + seed_radius;
          g = assign_block g lo hi (1 / 2);
          r = assign_block r lo hi (1 / 4);
          r = add r (amap (\<lambda>v. v * noise_level) (amap astype_float32 (tab n n rnd)))
      in (g, r))"

text \<open>The seeded base value of \<open>R\<close> and the value of \<open>G\<close>, as the specification words them.\<close>

definition in_block :: "nat \<Rightarrow> int \<Rightarrow> nat \<Rightarrow> nat \<Rightarrow> bool" where
  "in_block n seed_radius i j \<longleftrightarrow>
     int n div 2 - seed_radius \<le> int i \<and> int i < int n div 2 + seed_radius \<and>
     int n div 2 - seed_radius \<le> int j \<and> int j < int n div 2 + seed_radius"

text \<open>
  The radius the source divides by at cell \<open>(i, j)\<close>: the distance from the centre, with
  1 substituted where that distance is 0.
\<close>

definition warp_radius :: "nat \<Rightarrow> nat \<Rightarrow> nat \<Rightarrow> real" where
  "warp_radius n i j =
     (let r = sqrt ((real j - real (n div 2)) * (real j - real (n div 2))
                  + (real i - real (n div 2)) * (real i - real (n div 2)))
      in if r = 0 then 1 else r)"

lemma rotation_ring:
  fixes dx dy S C :: real
  shows "(dx * S + dy * C)\<^sup>2 + (dx * C - dy * S)\<^sup>2 = (dx\<^sup>2 + dy\<^sup>2) * (S\<^sup>2 + C\<^sup>2)"
  by (simp add: power2_eq_square algebra_simps)

lemma rotation_norm:
  "(dx * sin t + dy * cos t)\<^sup>2 + (dx * cos t - dy * sin t)\<^sup>2 = dy\<^sup>2 + (dx :: real)\<^sup>2"
  by (simp only: rotation_ring sin_squared_eq) simp

section \<open>Advection\<close>

text \<open>
  \<open>scipy.ndimage.map_coordinates(z, coords, order=1, mode="wrap")\<close> is a library function:
  the output has the shape of the coordinate arrays, and its cell \<open>(i, j)\<close> is the linear
  interpolation of \<open>z\<close> between the four samples around the source coordinate
  \<open>(coords[0][i, j], coords[1][i, j])\<close>. An index inside the array reads the array; an
  index outside reads the cell that the boundary mode maps it to. The boundary mode is the
  parameter \<open>ext\<close> (axis length and index to an index of the array), so that what is proved
  holds for the library's rule, whichever it is.
\<close>

definition axis_index :: "(nat \<Rightarrow> int \<Rightarrow> nat) \<Rightarrow> nat \<Rightarrow> int \<Rightarrow> nat" where
  "axis_index ext len k = (if 0 \<le> k \<and> k < int len then nat k else ext len k)"

definition sample :: "(nat \<Rightarrow> int \<Rightarrow> nat) \<Rightarrow> field \<Rightarrow> int \<Rightarrow> int \<Rightarrow> real" where
  "sample ext z i j = z ! axis_index ext (nrows z) i ! axis_index ext (ncols z) j"

definition interpolate :: "(nat \<Rightarrow> int \<Rightarrow> nat) \<Rightarrow> field \<Rightarrow> real \<Rightarrow> real \<Rightarrow> real" where
  "interpolate ext z y x =
     (let i0 = \<lfloor>y\<rfloor>; j0 = \<lfloor>x\<rfloor>;
          fy = y - of_int i0; fx = x - of_int j0
      in (1 - fy) * (1 - fx) * sample ext z i0 j0
       + (1 - fy) * fx * sample ext z i0 (j0 + 1)
       + fy * (1 - fx) * sample ext z (i0 + 1) j0
       + fy * fx * sample ext z (i0 + 1) (j0 + 1))"

definition map_coordinates :: "(nat \<Rightarrow> int \<Rightarrow> nat) \<Rightarrow> field \<Rightarrow> field \<times> field \<Rightarrow> field" where
  "map_coordinates ext z coords =
     (case coords of (row_src, col_src) \<Rightarrow>
        tab (nrows row_src) (ncols row_src)
          (\<lambda>i j. interpolate ext z (row_src ! i ! j) (col_src ! i ! j)))"

text \<open>The periodic boundary rule of the specification: an index is taken modulo the axis length.\<close>

definition periodic :: "nat \<Rightarrow> int \<Rightarrow> nat" where
  "periodic len k = nat (k mod int len)"

section \<open>The reaction--diffusion step\<close>

text \<open>The module-level constants that the loop reads, as a record.\<close>

record params =
  DT :: real
  DIFF_G :: real
  DIFF_R :: real
  FEED :: real
  KILL :: real
  ETA :: real
  STEPS_PER_FRAME :: nat

definition default_params :: params where
  "default_params =
     \<lparr>DT = 1, DIFF_G = 16 / 100, DIFF_R = 8 / 100, FEED = 40 / 1000, KILL = 60 / 1000,
      ETA = 1, STEPS_PER_FRAME = 8\<rparr>"

definition N :: nat where
  "N = 200"

definition ROTATION_STRENGTH :: real where
  "ROTATION_STRENGTH = 5 / 100"

subsection \<open>NumPy arithmetic on two arrays\<close>

text \<open>
  A binary operation on two arrays broadcasts: on each axis the lengths must agree or one
  of them must be 1, and an axis of length 1 is read at index 0 throughout. Otherwise NumPy
  raises \<open>ValueError\<close>; the model returns \<open>None\<close>.
\<close>

definition broadcast_dim :: "nat \<Rightarrow> nat \<Rightarrow> nat option" where
  "broadcast_dim a b =
     (if a = b then Some a else if a = 1 then Some b else if b = 1 then Some a else None)"

definition broadcast_get :: "field \<Rightarrow> nat \<Rightarrow> nat \<Rightarrow> real" where
  "broadcast_get z i j = z ! (if nrows z = 1 then 0 else i) ! (if ncols z = 1 then 0 else j)"

definition ew :: "(real \<Rightarrow> real \<Rightarrow> real) \<Rightarrow> field \<Rightarrow> field \<Rightarrow> field option" where
  "ew f a b =
     (case broadcast_dim (nrows a) (nrows b) of
        None \<Rightarrow> None
      | Some m \<Rightarrow>
          (case broadcast_dim (ncols a) (ncols b) of
             None \<Rightarrow> None
           | Some n \<Rightarrow> Some (tab m n (\<lambda>i j. f (broadcast_get a i j) (broadcast_get b i j)))))"

text \<open>
  \<open>z += d\<close> writes into \<open>z\<close>: the broadcast result must have the shape of \<open>z\<close>, or NumPy
  raises \<open>ValueError\<close>.
\<close>

definition iadd :: "field \<Rightarrow> field \<Rightarrow> field option" where
  "iadd z d =
     (case ew (+) z d of
        None \<Rightarrow> None
      | Some s \<Rightarrow> if shape s = shape z then Some s else None)"

subsection \<open>One tick\<close>

text \<open>
  The body of the loop in \<open>update\<close>, statement by statement, on the pair \<open>(g, r)\<close> that the
  closure holds. The result is the pair after \<open>g += delta_g; r += delta_r\<close>, or \<open>None\<close>
  when a statement raises.
\<close>

definition substep :: "params \<Rightarrow> field \<times> field \<Rightarrow> (field \<times> field) option" where
  "substep p s =
     (case s of (g, r) \<Rightarrow>
        do {
          let lap_g = laplacian g;
          let lap_r = laplacian r;
          rr \<leftarrow> ew (*) r r;
          gr2 \<leftarrow> ew (*) (scal (ETA p) g) rr;
          a \<leftarrow> ew (-) (scal (DIFF_G p) lap_g) gr2;
          b \<leftarrow> ew (+) a (scal (FEED p) (amap (\<lambda>v. 1 - v) g));
          let delta_g = amap (\<lambda>v. v * DT p) b;
          c \<leftarrow> ew (+) (scal (DIFF_R p) lap_r) gr2;
          d \<leftarrow> ew (-) c (scal (FEED p + KILL p) r);
          let delta_r = amap (\<lambda>v. v * DT p) d;
          g' \<leftarrow> iadd g delta_g;
          r' \<leftarrow> iadd r delta_r;
          Some (g', r')
        })"

text \<open>\<open>for _ in range(STEPS_PER_FRAME)\<close>: the body, \<open>k\<close> times.\<close>

fun substeps :: "params \<Rightarrow> nat \<Rightarrow> field \<times> field \<Rightarrow> (field \<times> field) option" where
  "substeps p 0 s = Some s"
| "substeps p (Suc k) s = (case substep p s of None \<Rightarrow> None | Some s' \<Rightarrow> substeps p k s')"

text \<open>Step 1 of \<open>update\<close>: both fields go through the map when there is one.\<close>

definition advect :: "(nat \<Rightarrow> int \<Rightarrow> nat) \<Rightarrow> (field \<times> field) option \<Rightarrow> field \<times> field \<Rightarrow> field \<times> field" where
  "advect ext coords s =
     (case coords of
        None \<Rightarrow> s
      | Some c \<Rightarrow> (map_coordinates ext (fst s) c, map_coordinates ext (snd s) c))"

text \<open>
  \<open>update\<close> of the source, as a function from the fields before the tick to the fields
  after it. The two calls that hand the result to the figure do not change the fields and
  are left out.
\<close>

definition update :: "(nat \<Rightarrow> int \<Rightarrow> nat) \<Rightarrow> params \<Rightarrow> (field \<times> field) option \<Rightarrow> field \<times> field \<Rightarrow> (field \<times> field) option" where
  "update ext p coords s = substeps p (STEPS_PER_FRAME p) (advect ext coords s)"

subsection \<open>The tick as the specification words it\<close>

text \<open>The five-point stencil at one cell, indices modulo the shape.\<close>

definition lap_cell :: "field \<Rightarrow> nat \<Rightarrow> nat \<Rightarrow> real" where
  "lap_cell z i j =
       z ! nat ((int i - 1) mod int (nrows z)) ! j + z ! nat ((int i + 1) mod int (nrows z)) ! j
     + z ! i ! nat ((int j - 1) mod int (ncols z)) + z ! i ! nat ((int j + 1) mod int (ncols z))
     - 4 * z ! i ! j"

text \<open>
  One synchronous sub-step: both deltas are computed cell by cell from the pair \<open>(g, r)\<close>
  before the step, and both fields are then replaced.
\<close>

definition spec_substep :: "params \<Rightarrow> field \<times> field \<Rightarrow> field \<times> field" where
  "spec_substep p s =
     (case s of (g, r) \<Rightarrow>
        (tab (nrows g) (ncols g)
           (\<lambda>i j. g ! i ! j
                 + (DIFF_G p * lap_cell g i j - ETA p * g ! i ! j * (r ! i ! j)\<^sup>2
                    + FEED p * (1 - g ! i ! j)) * DT p),
         tab (nrows r) (ncols r)
           (\<lambda>i j. r ! i ! j
                 + (DIFF_R p * lap_cell r i j + ETA p * g ! i ! j * (r ! i ! j)\<^sup>2
                    - (FEED p + KILL p) * r ! i ! j) * DT p)))"






text \<open>
  The value of a cell of \<open>G\<close> and of \<open>R\<close> after one sub-step, from the cell functions
  \<open>G\<close> and \<open>R\<close> of two arrays of shape \<open>(m, n)\<close> before it.
\<close>

definition next_g :: "params \<Rightarrow> nat \<Rightarrow> nat \<Rightarrow> (nat \<Rightarrow> nat \<Rightarrow> real) \<Rightarrow> (nat \<Rightarrow> nat \<Rightarrow> real) \<Rightarrow> nat \<Rightarrow> nat \<Rightarrow> real" where
  "next_g p m n G R i j =
     G i j + (DIFF_G p * (G (nat ((int i - 1) mod int m)) j + G (nat ((int i + 1) mod int m)) j
                  + G i (nat ((int j - 1) mod int n)) + G i (nat ((int j + 1) mod int n))
                  - 4 * G i j)
              - ETA p * G i j * (R i j)\<^sup>2 + FEED p * (1 - G i j)) * DT p"

definition next_r :: "params \<Rightarrow> nat \<Rightarrow> nat \<Rightarrow> (nat \<Rightarrow> nat \<Rightarrow> real) \<Rightarrow> (nat \<Rightarrow> nat \<Rightarrow> real) \<Rightarrow> nat \<Rightarrow> nat \<Rightarrow> real" where
  "next_r p m n G R i j =
     R i j + (DIFF_R p * (R (nat ((int i - 1) mod int m)) j + R (nat ((int i + 1) mod int m)) j
                  + R i (nat ((int j - 1) mod int n)) + R i (nat ((int j + 1) mod int n))
                  - 4 * R i j)
              + ETA p * G i j * (R i j)\<^sup>2 - (FEED p + KILL p) * R i j) * DT p"

text \<open>The default parameters with feed, kill and coupling switched off.\<close>

definition diffusion_params :: params where
  "diffusion_params = default_params\<lparr>FEED := 0, KILL := 0, ETA := 0\<rparr>"

text \<open>The grid total of \<open>G + R\<close> of a pair of fields.\<close>

definition mass :: "field \<times> field \<Rightarrow> real" where
  "mass s = total (add (fst s) (snd s))"

text \<open>A \<open>2 \<times> 2\<close> field that is 1 at the centre cell \<open>(1, 1)\<close> and 0 elsewhere.\<close>

definition corner_field :: field where
  "corner_field = [[0, 0], [0, 1]]"

text \<open>
  The reaction part of one sub-step at a single cell: what the sub-step does to the pair
  \<open>(G, R)\<close> of a cell whose four neighbours hold the same pair, so that both Laplacians
  are 0 there.
\<close>

definition react :: "params \<Rightarrow> real \<times> real \<Rightarrow> real \<times> real" where
  "react p ab =
     (fst ab + (- (ETA p * fst ab * (snd ab)\<^sup>2) + FEED p * (1 - fst ab)) * DT p,
      snd ab + (ETA p * fst ab * (snd ab)\<^sup>2 - (FEED p + KILL p) * snd ab) * DT p)"

text \<open>One sub-step on the cell functions of two arrays of shape \<open>(m, n)\<close>.\<close>

definition cell_step :: "params \<Rightarrow> nat \<Rightarrow> nat \<Rightarrow> (nat \<Rightarrow> nat \<Rightarrow> real) \<times> (nat \<Rightarrow> nat \<Rightarrow> real)
    \<Rightarrow> (nat \<Rightarrow> nat \<Rightarrow> real) \<times> (nat \<Rightarrow> nat \<Rightarrow> real)" where
  "cell_step p m n GR = (next_g p m n (fst GR) (snd GR), next_r p m n (fst GR) (snd GR))"

text \<open>
  Both fields are constant, with values \<open>ab\<close>, on the square of cells at most \<open>d\<close> away
  from \<open>(c, c)\<close> along each axis.
\<close>

definition uniform_block :: "nat \<Rightarrow> nat \<Rightarrow> (nat \<Rightarrow> nat \<Rightarrow> real) \<times> (nat \<Rightarrow> nat \<Rightarrow> real) \<Rightarrow> real \<times> real \<Rightarrow> bool" where
  "uniform_block c d GR ab \<longleftrightarrow>
     (\<forall>i j. c - d \<le> i \<and> i \<le> c + d \<and> c - d \<le> j \<and> j \<le> c + d
        \<longrightarrow> fst GR i j = fst ab \<and> snd GR i j = snd ab)"

text \<open>Bounds on the pair of a cell inside the seed during the first tick.\<close>

definition box :: "real \<Rightarrow> real \<Rightarrow> real \<times> real \<Rightarrow> bool" where
  "box gl ru ab \<longleftrightarrow> gl \<le> fst ab \<and> fst ab \<le> 1 / 2 \<and> 1 / 4 \<le> snd ab \<and> snd ab \<le> ru"

text \<open>
  \<open>np.fft.fft2\<close> is a library function. On an array of shape \<open>(m, n)\<close> it returns the array of
  the same shape whose cell \<open>(k, l)\<close> is the sum over all cells \<open>(a, b)\<close> of
  \<open>z[a, b] * exp (-2 \<pi> i (k a / m + l b / n))\<close>.
\<close>

definition fft2 :: "field \<Rightarrow> complex list list" where
  "fft2 z =
     (let m = nrows z; n = ncols z
      in tab m n (\<lambda>k l. \<Sum>a<m. \<Sum>b<n.
           of_real (z ! a ! b)
             * cis (- (2 * pi * (real k * real a / real m + real l * real b / real n)))))"

text \<open>\<open>np.fft.fftshift\<close>: every axis is rolled by half its length, rounded down.\<close>

definition fftshift :: "'a list list \<Rightarrow> 'a list list" where
  "fftshift f = roll_axis1 (int (ncols f div 2)) (roll_axis0 (int (nrows f div 2)) f)"

text \<open>\<open>get_power_spectrum\<close> of the source; \<open>1e-9\<close> is taken as the exact number.\<close>

definition get_power_spectrum :: "field \<Rightarrow> field" where
  "get_power_spectrum img =
     (let f = fft2 img;
          fshift = fftshift f
      in map (map (\<lambda>v. ln (cmod v + 1 / 10 ^ 9))) fshift)"

text \<open>
  The mirror image of the index \<open>i\<close> through the centre \<open>len div 2\<close> of an axis. The axis of
  frequencies is periodic, so the image is taken modulo the length: on an axis of even length
  the image of index 0 would be \<open>len\<close>, outside the array, and is index 0 itself.
\<close>

definition reflect :: "nat \<Rightarrow> nat \<Rightarrow> nat" where
  "reflect len i = nat ((2 * int (len div 2) - int i) mod int len)"

text \<open>The factor \<open>exp (2 \<pi> i e / m)\<close> of the transform, for an integer \<open>e\<close>.\<close>

definition twiddle :: "nat \<Rightarrow> int \<Rightarrow> complex" where
  "twiddle m e = cis (2 * pi * of_int e / real m)"

section \<open>Shapes and cells\<close>

lemma rect_length: "rect m n z \<Longrightarrow> length z = m"
  by (simp add: rect_def)

lemma rect_row: "rect m n z \<Longrightarrow> i < m \<Longrightarrow> length (z ! i) = n"
  by (simp add: rect_def list_all_length)

lemma rectI: "length z = m \<Longrightarrow> (\<And>i. i < m \<Longrightarrow> length (z ! i) = n) \<Longrightarrow> rect m n z"
  by (simp add: rect_def list_all_length)

lemma roll_length [simp]: "length (roll k xs) = length xs"
  by (simp add: roll_def)

lemma roll_nth:
  assumes "i < length xs"
  shows "roll k xs ! i = xs ! nat ((int i - k) mod int (length xs))"
proof -
  let ?L = "length xs"
  have L: "0 < int ?L" using assms by auto
  have nn: "0 \<le> (- k) mod int ?L" using L by simp
  have "int ((nat ((- k) mod int ?L) + i) mod ?L) = ((- k) mod int ?L + int i) mod int ?L"
    using nn by (simp add: zmod_int)
  also have "\<dots> = (int i - k) mod int ?L"
    by (simp add: mod_add_left_eq)
  finally have "(nat ((- k) mod int ?L) + i) mod ?L = nat ((int i - k) mod int ?L)"
    by linarith
  then show ?thesis
    using assms by (simp add: roll_def nth_rotate)
qed

lemma sum_list_rotate: "sum_list (rotate k (xs :: real list)) = sum_list xs"
proof -
  let ?q = "k mod length xs"
  have "sum_list xs = sum_list (take ?q xs @ drop ?q xs)"
    by (simp only: append_take_drop_id)
  also have "\<dots> = sum_list (drop ?q xs @ take ?q xs)"
    by (simp only: sum_list_append add.commute)
  also have "\<dots> = sum_list (rotate k xs)"
    by (simp only: rotate_drop_take)
  finally show ?thesis by simp
qed

lemma roll_sum_list: "sum_list (roll k (xs :: real list)) = sum_list xs"
  by (simp add: roll_def sum_list_rotate)

lemma rect_roll_axis0: "rect m n z \<Longrightarrow> rect m n (roll_axis0 k z)"
  by (simp add: rect_def roll_axis0_def roll_def list_all_iff)

lemma rect_roll_axis1: "rect m n z \<Longrightarrow> rect m n (roll_axis1 k z)"
  by (simp add: rect_def roll_axis1_def list_all_iff)

lemma rect_scal: "rect m n z \<Longrightarrow> rect m n (scal c z)"
  by (simp add: rect_def scal_def list_all_iff)

lemma rect_add: "rect m n a \<Longrightarrow> rect m n b \<Longrightarrow> rect m n (add a b)"
  by (auto simp add: rect_def add_def list_all_length)

lemma rect_sub: "rect m n a \<Longrightarrow> rect m n b \<Longrightarrow> rect m n (sub a b)"
  by (auto simp add: rect_def sub_def list_all_length)

lemma add_nth: "rect m n a \<Longrightarrow> rect m n b \<Longrightarrow> i < m \<Longrightarrow> j < n \<Longrightarrow>
    add a b ! i ! j = a ! i ! j + b ! i ! j"
  by (simp add: add_def rect_def list_all_length)

lemma sub_nth: "rect m n a \<Longrightarrow> rect m n b \<Longrightarrow> i < m \<Longrightarrow> j < n \<Longrightarrow>
    sub a b ! i ! j = a ! i ! j - b ! i ! j"
  by (simp add: sub_def rect_def list_all_length)

lemma scal_nth: "rect m n z \<Longrightarrow> i < m \<Longrightarrow> j < n \<Longrightarrow> scal c z ! i ! j = c * z ! i ! j"
  by (simp add: scal_def rect_def list_all_length)

lemma roll_axis0_nth: "rect m n z \<Longrightarrow> i < m \<Longrightarrow>
    roll_axis0 k z ! i = z ! nat ((int i - k) mod int m)"
  by (simp add: roll_axis0_def roll_nth rect_def)

lemma roll_axis1_nth: "rect m n z \<Longrightarrow> i < m \<Longrightarrow> j < n \<Longrightarrow>
    roll_axis1 k z ! i ! j = z ! i ! nat ((int j - k) mod int n)"
  by (simp add: roll_axis1_def roll_nth rect_def list_all_length)

lemma rect_laplacian: "rect m n z \<Longrightarrow> rect m n (laplacian z)"
  unfolding laplacian_def
  by (intro rect_sub rect_add rect_roll_axis0 rect_roll_axis1 rect_scal)

lemma laplacian_nth:
  assumes z: "rect m n z" and i: "i < m" and j: "j < n"
  shows "laplacian z ! i ! j =
           z ! nat ((int i - 1) mod int m) ! j + z ! nat ((int i + 1) mod int m) ! j
         + z ! i ! nat ((int j - 1) mod int n) + z ! i ! nat ((int j + 1) mod int n)
         - 4 * z ! i ! j"
proof -
  note r0 = rect_roll_axis0 [OF z] and r1 = rect_roll_axis1 [OF z]
  note a1 = rect_add [OF r0 r0]
  note a2 = rect_add [OF a1 r1]
  note a3 = rect_add [OF a2 r1]
  show ?thesis
    unfolding laplacian_def
    by (simp add: sub_nth [OF a3 rect_scal [OF z] i j] add_nth [OF a2 r1 i j]
        add_nth [OF a1 r1 i j] add_nth [OF r0 r0 i j] scal_nth [OF z i j]
        roll_axis0_nth [OF z i] roll_axis1_nth [OF z i j])
qed

section \<open>Totals\<close>

lemma sum_list_map2_add:
  "length xs = length ys \<Longrightarrow> sum_list (map2 (+) xs ys) = sum_list xs + sum_list (ys :: real list)"
  by (induction xs ys rule: list_induct2) simp_all

lemma sum_list_map2_sub:
  "length xs = length ys \<Longrightarrow> sum_list (map2 (-) xs ys) = sum_list xs - sum_list (ys :: real list)"
  by (induction xs ys rule: list_induct2) simp_all

lemma total_add: "rect m n a \<Longrightarrow> rect m n b \<Longrightarrow> total (add a b) = total a + total b"
proof (induction a arbitrary: m b)
  case Nil
  then show ?case by (simp add: total_def add_def rect_def)
next
  case (Cons row a)
  then obtain row' b' where b: "b = row' # b'"
    by (cases b) (auto simp add: rect_def)
  obtain m' where m: "m = Suc m'" using Cons.prems(1) by (cases m) (auto simp add: rect_def)
  have ra: "rect m' n a" and rb: "rect m' n b'" and l: "length row = length row'"
    using Cons.prems by (auto simp add: rect_def b m)
  show ?case
    using Cons.IH [OF ra rb] l
    by (simp add: b total_def add_def sum_list_map2_add)
qed

lemma total_sub: "rect m n a \<Longrightarrow> rect m n b \<Longrightarrow> total (sub a b) = total a - total b"
proof (induction a arbitrary: m b)
  case Nil
  then show ?case by (simp add: total_def sub_def rect_def)
next
  case (Cons row a)
  then obtain row' b' where b: "b = row' # b'"
    by (cases b) (auto simp add: rect_def)
  obtain m' where m: "m = Suc m'" using Cons.prems(1) by (cases m) (auto simp add: rect_def)
  have ra: "rect m' n a" and rb: "rect m' n b'" and l: "length row = length row'"
    using Cons.prems by (auto simp add: rect_def b m)
  show ?case
    using Cons.IH [OF ra rb] l
    by (simp add: b total_def sub_def sum_list_map2_sub)
qed

lemma total_scal: "total (scal c z) = c * total z"
  by (induction z) (simp_all add: total_def scal_def sum_list_const_mult algebra_simps)

lemma total_roll_axis0: "total (roll_axis0 k z) = total z"
proof -
  have "map sum_list (roll k z) = rotate (nat ((- k) mod int (length z))) (map sum_list z)"
    by (simp add: roll_def rotate_map)
  then show ?thesis
    by (simp add: total_def roll_axis0_def sum_list_rotate)
qed

lemma total_roll_axis1: "total (roll_axis1 k z) = total z"
  by (induction z) (simp_all add: total_def roll_axis1_def roll_sum_list)

lemma total_laplacian: "rect m n z \<Longrightarrow> total (laplacian z) = 0"
proof -
  assume z: "rect m n z"
  note r0 = rect_roll_axis0 [OF z] and r1 = rect_roll_axis1 [OF z]
  note a1 = rect_add [OF r0 r0]
  note a2 = rect_add [OF a1 r1]
  note a3 = rect_add [OF a2 r1]
  show ?thesis
    unfolding laplacian_def
    by (simp add: total_sub [OF a3 rect_scal [OF z]] total_add [OF a2 r1] total_add [OF a1 r1]
        total_add [OF r0 r0] total_scal total_roll_axis0 total_roll_axis1)
qed

section \<open>Properties of the Laplacian\<close>

text \<open>
  Claim C2. For an \<open>n \<times> n\<close> array \<open>z\<close> and a cell \<open>(i, j)\<close> of it, the Laplacian at
  \<open>(i, j)\<close> is \<open>z[(i-1) mod n, j] + z[(i+1) mod n, j] + z[i, (j-1) mod n] + z[i, (j+1) mod n]
  - 4 z[i, j]\<close>, every term read from the input \<open>z\<close>, and the result is again an
  \<open>n \<times> n\<close> array. The function is pure: it builds a new array and leaves \<open>z\<close> as it is.
\<close>

theorem laplacian_periodic_stencil:
  assumes "rect n n z" and "i < n" and "j < n"
  shows "rect n n (laplacian z) \<and>
         laplacian z ! i ! j =
           z ! nat ((int i - 1) mod int n) ! j + z ! nat ((int i + 1) mod int n) ! j
         + z ! i ! nat ((int j - 1) mod int n) + z ! i ! nat ((int j + 1) mod int n)
         - 4 * z ! i ! j"
  using assms by (simp add: rect_laplacian laplacian_nth)

theorem laplacian_periodic_stencil_witness:
  "rect 3 3 [[1, 2, 3], [4, 5, 6], [7, 8, 9 :: real]] \<and> (0::nat) < 3 \<and>
   rect 3 3 (laplacian [[1, 2, 3], [4, 5, 6], [7, 8, 9]]) \<and>
   laplacian [[1, 2, 3], [4, 5, 6], [7, 8, 9]] ! 0 ! 0 = 7 + 4 + 3 + 2 - 4 * 1"
proof -
  have r: "rect 3 3 [[1, 2, 3], [4, 5, 6], [7, 8, 9 :: real]]"
    by (simp add: rect_def)
  show ?thesis
    using r laplacian_periodic_stencil [OF r, of 0 0] by simp
qed

text \<open>
  Claim C7. The samples of the Laplacian of any array sum to zero (in exact arithmetic).
\<close>

theorem laplacian_total_zero:
  assumes "rect m n z"
  shows "total (laplacian z) = 0"
  using assms by (rule total_laplacian)

theorem laplacian_total_zero_witness:
  "rect 2 3 [[1, 2, 3], [4, 5, 6 :: real]] \<and> total (laplacian [[1, 2, 3], [4, 5, 6]]) = 0"
proof -
  have r: "rect 2 3 [[1, 2, 3], [4, 5, 6 :: real]]"
    by (simp add: rect_def)
  show ?thesis
    using r laplacian_total_zero [OF r] by simp
qed

section \<open>Arrays given cell by cell: lemmas\<close>

lemma tab_length [simp]: "length (tab m n f) = m"
  by (simp add: tab_def)

lemma tab_nth_row [simp]: "i < m \<Longrightarrow> tab m n f ! i = map (f i) [0..<n]"
  by (simp add: tab_def)

lemma tab_nth: "i < m \<Longrightarrow> j < n \<Longrightarrow> tab m n f ! i ! j = f i j"
  by simp

lemma rect_tab [simp]: "rect m n (tab m n f)"
  by (simp add: rect_def tab_def list_all_iff)

lemma tab_cong: "(\<And>i j. i < m \<Longrightarrow> j < n \<Longrightarrow> f i j = g i j) \<Longrightarrow> tab m n f = tab m n g"
  by (simp add: tab_def)

lemma rect_as_tab: "rect m n z \<Longrightarrow> z = tab m n (\<lambda>i j. z ! i ! j)"
proof (rule nth_equalityI)
  assume r: "rect m n z"
  show "length z = length (tab m n (\<lambda>i j. z ! i ! j))"
    using r by (simp add: rect_def)
  fix i assume i: "i < length z"
  then have im: "i < m" using r by (simp add: rect_def)
  have "length (z ! i) = n" using r i by (simp add: rect_def list_all_length)
  then have "z ! i = map (\<lambda>j. z ! i ! j) [0..<n]"
    by (intro nth_equalityI) simp_all
  then show "z ! i = tab m n (\<lambda>i j. z ! i ! j) ! i"
    using im by simp
qed

lemma nrows_tab [simp]: "nrows (tab m n f) = m"
  by (simp add: nrows_def)

lemma ncols_tab: "ncols (tab m n f) = (if m = 0 then 0 else n)"
proof (cases m)
  case 0
  then show ?thesis by (simp add: ncols_def tab_def)
next
  case (Suc k)
  have "[0..<Suc k] = 0 # [Suc 0..<Suc k]"
    by (rule upt_conv_Cons) simp
  then show ?thesis
    by (simp add: ncols_def tab_def Suc del: upt_Suc)
qed

lemma map2_same_index: "map2 h (map f xs) (map g xs) = map (\<lambda>x. h (f x) (g x)) xs"
  by (induction xs) simp_all

lemma amap_tab [simp]: "amap h (tab m n f) = tab m n (\<lambda>i j. h (f i j))"
  by (simp add: amap_def tab_def)

lemma map2_map2_tab: "map2 (map2 h) (tab m n f) (tab m n g) = tab m n (\<lambda>i j. h (f i j) (g i j))"
  by (simp add: tab_def map2_same_index)

lemma add_tab [simp]: "add (tab m n f) (tab m n g) = tab m n (\<lambda>i j. f i j + g i j)"
  by (simp add: add_def map2_map2_tab)

lemma sub_tab [simp]: "sub (tab m n f) (tab m n g) = tab m n (\<lambda>i j. f i j - g i j)"
  by (simp add: sub_def map2_map2_tab)

lemma mul_tab [simp]: "mul (tab m n f) (tab m n g) = tab m n (\<lambda>i j. f i j * g i j)"
  by (simp add: mul_def map2_map2_tab)

lemma scal_tab [simp]: "scal c (tab m n f) = tab m n (\<lambda>i j. c * f i j)"
  by (simp add: scal_def tab_def)

section \<open>Properties of the advection map\<close>

lemma build_keplerian_coords_tab:
  "build_keplerian_coords n s =
     (tab n n (\<lambda>i j. (real j - real (n div 2)) * sin (s * (1 / warp_radius n i j))
                    + (real i - real (n div 2)) * cos (s * (1 / warp_radius n i j)) + real (n div 2)),
      tab n n (\<lambda>i j. (real j - real (n div 2)) * cos (s * (1 / warp_radius n i j))
                    - (real i - real (n div 2)) * sin (s * (1 / warp_radius n i j)) + real (n div 2)))"
  by (simp add: build_keplerian_coords_def meshgrid_ij_def warp_radius_def Let_def)

text \<open>
  Claim C10. The warp is a pure rotation about the grid centre: for every cell \<open>(i, j)\<close> of
  the \<open>n \<times> n\<close> grid and every rotation strength, the stored source coordinate
  \<open>(y_warp, x_warp)\<close> lies at the same Euclidean distance from the centre
  \<open>(n div 2, n div 2)\<close> as the cell itself, and the source coordinate of the centre cell is
  the centre.
\<close>

theorem warp_preserves_radius:
  assumes "i < n" and "j < n"
  shows "(case build_keplerian_coords n s of (y_warp, x_warp) \<Rightarrow>
           sqrt ((y_warp ! i ! j - real (n div 2))\<^sup>2 + (x_warp ! i ! j - real (n div 2))\<^sup>2)
             = sqrt ((real i - real (n div 2))\<^sup>2 + (real j - real (n div 2))\<^sup>2)
           \<and> y_warp ! (n div 2) ! (n div 2) = real (n div 2)
           \<and> x_warp ! (n div 2) ! (n div 2) = real (n div 2))"
proof -
  have c: "n div 2 < n" using assms by simp
  show ?thesis
    using assms c by (simp add: build_keplerian_coords_tab rotation_norm)
qed

theorem warp_preserves_radius_witness:
  "(0::nat) < 3 \<and> (2::nat) < 3 \<and>
   (case build_keplerian_coords 3 1 of (y_warp, x_warp) \<Rightarrow>
           sqrt ((y_warp ! 0 ! 2 - real (3 div 2))\<^sup>2 + (x_warp ! 0 ! 2 - real (3 div 2))\<^sup>2)
             = sqrt ((real 0 - real (3 div 2))\<^sup>2 + (real 2 - real (3 div 2))\<^sup>2)
           \<and> y_warp ! (3 div 2) ! (3 div 2) = real (3 div 2)
           \<and> x_warp ! (3 div 2) ! (3 div 2) = real (3 div 2))"
  using warp_preserves_radius [of 0 3 2 1] by simp

lemma ncols_rect: "rect m n z \<Longrightarrow> 0 < m \<Longrightarrow> ncols z = n"
  by (cases z) (auto simp add: rect_def ncols_def)

lemma nrows_rect: "rect m n z \<Longrightarrow> nrows z = m"
  by (simp add: rect_def nrows_def)

section \<open>Properties of the initial fields\<close>

lemma py_slice_bound_inside: "0 \<le> k \<Longrightarrow> k \<le> int n \<Longrightarrow> py_slice_bound n k = nat k"
  by (simp add: py_slice_bound_def)

lemma seed_slice_is_block:
  assumes "0 < seed_radius" and "2 * seed_radius < int n"
  shows "in_slice n (int n div 2 - seed_radius) (int n div 2 + seed_radius) i
           \<and> in_slice n (int n div 2 - seed_radius) (int n div 2 + seed_radius) j
         \<longleftrightarrow> in_block n seed_radius i j"
proof -
  have lo: "0 \<le> int n div 2 - seed_radius" and lo': "int n div 2 - seed_radius \<le> int n"
    and hi: "0 \<le> int n div 2 + seed_radius" and hi': "int n div 2 + seed_radius \<le> int n"
    using assms by linarith+
  show ?thesis
    unfolding in_slice_def in_block_def
      py_slice_bound_inside [OF lo lo'] py_slice_bound_inside [OF hi hi']
    by (simp add: nat_le_iff zless_nat_eq_int_zless)
qed

lemma initialize_fields_tab:
  assumes "0 < seed_radius" and "2 * seed_radius < int n"
  shows "initialize_fields n seed_radius noise_level rnd =
           (tab n n (\<lambda>i j. if in_block n seed_radius i j then 1 / 2 else 1),
            tab n n (\<lambda>i j. (if in_block n seed_radius i j then 1 / 4 else 0)
                            + astype_float32 (rnd i j) * noise_level))"
proof -
  have n: "0 < n" using assms by linarith
  have blk: "\<And>i j. (in_slice n (int n div 2 - seed_radius) (int n div 2 + seed_radius) i
           \<and> in_slice n (int n div 2 - seed_radius) (int n div 2 + seed_radius) j)
         = in_block n seed_radius i j"
    using seed_slice_is_block [OF assms] by simp
  have g: "assign_block (tab n n (\<lambda>i j. 1)) (int n div 2 - seed_radius) (int n div 2 + seed_radius) (1 / 2)
             = tab n n (\<lambda>i j. if in_block n seed_radius i j then 1 / 2 else 1)"
    unfolding assign_block_def using n
    by (auto simp add: ncols_tab blk intro!: tab_cong)
  have r: "assign_block (tab n n (\<lambda>i j. 0)) (int n div 2 - seed_radius) (int n div 2 + seed_radius) (1 / 4)
             = tab n n (\<lambda>i j. if in_block n seed_radius i j then 1 / 4 else 0)"
    unfolding assign_block_def using n
    by (auto simp add: ncols_tab blk intro!: tab_cong)
  show ?thesis
    by (simp add: initialize_fields_def Let_def g r)
qed

subsection \<open>The cast of a draw\<close>










section \<open>Properties of advection\<close>

lemma build_keplerian_coords_zero: "build_keplerian_coords n 0 = meshgrid_ij n"
  by (simp add: build_keplerian_coords_tab meshgrid_ij_def)

lemma axis_index_inside: "i < len \<Longrightarrow> axis_index ext len (int i) = i"
  by (simp add: axis_index_def)

lemma interpolate_at_cell:
  assumes "i < nrows z" and "j < ncols z"
  shows "interpolate ext z (real i) (real j) = z ! i ! j"
  using assms by (simp add: interpolate_def sample_def Let_def axis_index_inside)

lemma map_coordinates_meshgrid:
  assumes "rect n n z"
  shows "map_coordinates ext z (meshgrid_ij n) = z"
proof (cases "n = 0")
  case True
  then show ?thesis
    using assms by (simp add: map_coordinates_def meshgrid_ij_def rect_def tab_def nrows_def)
next
  case False
  then have n: "0 < n" by simp
  have nr: "nrows z = n" and nc: "ncols z = n"
    using assms n by (simp_all add: nrows_rect ncols_rect)
  have "map_coordinates ext z (meshgrid_ij n) = tab n n (\<lambda>i j. interpolate ext z (real i) (real j))"
    using n by (auto simp add: map_coordinates_def meshgrid_ij_def ncols_tab intro!: tab_cong)
  also have "\<dots> = tab n n (\<lambda>i j. z ! i ! j)"
    by (rule tab_cong) (simp add: interpolate_at_cell nr nc)
  also have "\<dots> = z"
    using rect_as_tab [OF assms] by simp
  finally show ?thesis .
qed

text \<open>
  Claim C6. With rotation strength 0 the map is the identity: the stored source coordinate
  of every cell \<open>(i, j)\<close> is \<open>(i, j)\<close>, and advecting an \<open>n \<times> n\<close> field through the map
  returns the field, whatever the boundary mode.
\<close>

theorem zero_rotation_is_identity:
  assumes "rect n n z" and "i < n" and "j < n"
  shows "(case build_keplerian_coords n 0 of (row_src, col_src) \<Rightarrow>
            row_src ! i ! j = real i \<and> col_src ! i ! j = real j)
         \<and> map_coordinates ext z (build_keplerian_coords n 0) = z"
proof -
  have "map_coordinates ext z (build_keplerian_coords n 0) = z"
    using assms(1) by (simp only: build_keplerian_coords_zero map_coordinates_meshgrid)
  then show ?thesis
    using assms(2,3) by (simp add: build_keplerian_coords_zero meshgrid_ij_def)
qed

theorem zero_rotation_is_identity_witness:
  "rect 2 2 [[1, 2], [3, 4 :: real]] \<and> (1::nat) < 2 \<and> (0::nat) < 2 \<and>
   (case build_keplerian_coords 2 0 of (row_src, col_src) \<Rightarrow>
            row_src ! 1 ! 0 = real 1 \<and> col_src ! 1 ! 0 = real 0)
         \<and> map_coordinates periodic [[1, 2], [3, 4]] (build_keplerian_coords 2 0) = [[1, 2], [3, 4]]"
proof -
  have r: "rect 2 2 [[1, 2], [3, 4 :: real]]"
    by (simp add: rect_def)
  show ?thesis
    using r zero_rotation_is_identity [OF r, of 1 0 periodic] by simp
qed

section \<open>The tick refines its specification\<close>

lemma shape_tab: "shape (tab m n f) = (m, if m = 0 then 0 else n)"
  by (simp add: shape_def ncols_tab)

lemma mod_index_less: "0 < m \<Longrightarrow> nat (k mod int m) < m"
  by (simp add: nat_less_iff)

lemma laplacian_tab:
  "laplacian (tab m n G) =
     tab m n (\<lambda>i j. G (nat ((int i - 1) mod int m)) j + G (nat ((int i + 1) mod int m)) j
                  + G i (nat ((int j - 1) mod int n)) + G i (nat ((int j + 1) mod int n))
                  - 4 * G i j)"
proof -
  have "laplacian (tab m n G) = tab m n (\<lambda>i j. laplacian (tab m n G) ! i ! j)"
    by (rule rect_as_tab) (simp add: rect_laplacian)
  also have "\<dots> = tab m n (\<lambda>i j. G (nat ((int i - 1) mod int m)) j + G (nat ((int i + 1) mod int m)) j
                  + G i (nat ((int j - 1) mod int n)) + G i (nat ((int j + 1) mod int n))
                  - 4 * G i j)"
  proof (rule tab_cong)
    fix i j assume i: "i < m" and j: "j < n"
    then have m: "0 < m" and n: "0 < n" by simp_all
    show "laplacian (tab m n G) ! i ! j =
            G (nat ((int i - 1) mod int m)) j + G (nat ((int i + 1) mod int m)) j
          + G i (nat ((int j - 1) mod int n)) + G i (nat ((int j + 1) mod int n)) - 4 * G i j"
      using i j mod_index_less [OF m] mod_index_less [OF n]
      by (simp add: laplacian_nth [OF rect_tab i j])
  qed
  finally show ?thesis .
qed

lemma ew_tab: "ew f (tab m n A) (tab m n B) = Some (tab m n (\<lambda>i j. f (A i j) (B i j)))"
proof (cases "m = 0")
  case True
  then show ?thesis
    by (simp add: ew_def ncols_tab broadcast_dim_def tab_def nrows_def)
next
  case False
  have "tab m n (\<lambda>i j. f (broadcast_get (tab m n A) i j) (broadcast_get (tab m n B) i j))
          = tab m n (\<lambda>i j. f (A i j) (B i j))"
    by (rule tab_cong) (auto simp add: broadcast_get_def ncols_tab)
  then show ?thesis
    using False by (simp add: ew_def ncols_tab broadcast_dim_def)
qed

lemma iadd_tab: "iadd (tab m n A) (tab m n D) = Some (tab m n (\<lambda>i j. A i j + D i j))"
  by (simp add: iadd_def ew_tab shape_tab)

lemma substep_tab:
  "substep p (tab m n G, tab m n R) = Some (tab m n (next_g p m n G R), tab m n (next_r p m n G R))"
proof -
  have g: "(\<lambda>i j. G i j + (DIFF_G p * (G (nat ((int i - 1) mod int m)) j + G (nat ((int i + 1) mod int m)) j
                  + G i (nat ((int j - 1) mod int n)) + G i (nat ((int j + 1) mod int n))
                  - 4 * G i j) - ETA p * G i j * (R i j * R i j) + FEED p * (1 - G i j)) * DT p)
           = next_g p m n G R"
    by (intro ext) (simp add: next_g_def power2_eq_square)
  have r: "(\<lambda>i j. R i j + (DIFF_R p * (R (nat ((int i - 1) mod int m)) j + R (nat ((int i + 1) mod int m)) j
                  + R i (nat ((int j - 1) mod int n)) + R i (nat ((int j + 1) mod int n))
                  - 4 * R i j) + ETA p * G i j * (R i j * R i j) - (FEED p + KILL p) * R i j) * DT p)
           = next_r p m n G R"
    by (intro ext) (simp add: next_r_def power2_eq_square)
  show ?thesis
    by (simp add: substep_def laplacian_tab ew_tab iadd_tab g r)
qed

lemma spec_substep_tab:
  "spec_substep p (tab m n G, tab m n R) = (tab m n (next_g p m n G R), tab m n (next_r p m n G R))"
proof (cases "m = 0")
  case True
  then show ?thesis by (simp add: spec_substep_def tab_def nrows_def)
next
  case False
  have lap: "lap_cell (tab m n F) i j =
           F (nat ((int i - 1) mod int m)) j + F (nat ((int i + 1) mod int m)) j
         + F i (nat ((int j - 1) mod int n)) + F i (nat ((int j + 1) mod int n)) - 4 * F i j"
    if "i < m" "j < n" for F i j
  proof -
    have m: "0 < m" and n: "0 < n" using that by simp_all
    show ?thesis
      using that False mod_index_less [OF m] mod_index_less [OF n]
      by (simp add: lap_cell_def ncols_tab)
  qed
  have "tab m n (\<lambda>i j. tab m n G ! i ! j
                 + (DIFF_G p * lap_cell (tab m n G) i j - ETA p * tab m n G ! i ! j * (tab m n R ! i ! j)\<^sup>2
                    + FEED p * (1 - tab m n G ! i ! j)) * DT p) = tab m n (next_g p m n G R)"
    by (rule tab_cong) (simp add: lap next_g_def)
  moreover have "tab m n (\<lambda>i j. tab m n R ! i ! j
                 + (DIFF_R p * lap_cell (tab m n R) i j + ETA p * tab m n G ! i ! j * (tab m n R ! i ! j)\<^sup>2
                    - (FEED p + KILL p) * tab m n R ! i ! j) * DT p) = tab m n (next_r p m n G R)"
    by (rule tab_cong) (simp add: lap next_r_def)
  ultimately show ?thesis
    using False by (simp add: spec_substep_def ncols_tab)
qed

lemma substep_refines:
  assumes "rect m n g" and "rect m n r"
  shows "substep p (g, r) = Some (spec_substep p (g, r))"
    and "rect m n (fst (spec_substep p (g, r)))"
    and "rect m n (snd (spec_substep p (g, r)))"
proof -
  have g: "g = tab m n (\<lambda>i j. g ! i ! j)" and r: "r = tab m n (\<lambda>i j. r ! i ! j)"
    using assms rect_as_tab by blast+
  show "substep p (g, r) = Some (spec_substep p (g, r))"
    by (subst g, subst r, subst (2) g, subst (2) r) (simp only: substep_tab spec_substep_tab)
  show "rect m n (fst (spec_substep p (g, r)))"
    by (subst g, subst r) (simp add: spec_substep_tab)
  show "rect m n (snd (spec_substep p (g, r)))"
    by (subst g, subst r) (simp add: spec_substep_tab)
qed

lemma substeps_refines:
  assumes "rect m n (fst s)" and "rect m n (snd s)"
  shows "substeps p k s = Some ((spec_substep p ^^ k) s)"
  using assms
proof (induction k arbitrary: s)
  case 0
  then show ?case by simp
next
  case (Suc k)
  obtain g r where s: "s = (g, r)" by (cases s)
  have g: "rect m n g" and r: "rect m n r" using Suc.prems by (simp_all add: s)
  note st = substep_refines [OF g r, of p]
  have "substeps p (Suc k) s = substeps p k (spec_substep p (g, r))"
    by (simp add: s st(1))
  also have "\<dots> = Some ((spec_substep p ^^ k) (spec_substep p (g, r)))"
    by (rule Suc.IH) (rule st(2), rule st(3))
  finally show ?case
    by (simp add: s funpow_swap1)
qed

lemma rect_map_coordinates: "rect (nrows (fst c)) (ncols (fst c)) (map_coordinates ext z c)"
  by (cases c) (simp add: map_coordinates_def)

lemma update_without_map:
  assumes "rect m n g" and "rect m n r"
  shows "update ext p None (g, r) = Some ((spec_substep p ^^ STEPS_PER_FRAME p) (g, r))"
proof -
  have "substeps p (STEPS_PER_FRAME p) (g, r) = Some ((spec_substep p ^^ STEPS_PER_FRAME p) (g, r))"
    by (rule substeps_refines [where m = m and n = n]) (simp_all add: assms)
  then show ?thesis
    by (simp add: update_def advect_def)
qed

lemma update_through_map:
  "update ext p (Some c) (g, r)
     = Some ((spec_substep p ^^ STEPS_PER_FRAME p) (map_coordinates ext g c, map_coordinates ext r c))"
proof -
  have "substeps p (STEPS_PER_FRAME p) (map_coordinates ext g c, map_coordinates ext r c)
          = Some ((spec_substep p ^^ STEPS_PER_FRAME p) (map_coordinates ext g c, map_coordinates ext r c))"
    by (rule substeps_refines [where m = "nrows (fst c)" and n = "ncols (fst c)"])
       (simp_all add: rect_map_coordinates)
  then show ?thesis
    by (simp add: update_def advect_def)
qed

lemma funpow_spec_substep_rect:
  assumes "rect m n (fst s)" and "rect m n (snd s)"
  shows "rect m n (fst ((spec_substep p ^^ k) s)) \<and> rect m n (snd ((spec_substep p ^^ k) s))"
  using assms
proof (induction k)
  case 0
  then show ?case by simp
next
  case (Suc k)
  obtain g r where gr: "(spec_substep p ^^ k) s = (g, r)" by (cases "(spec_substep p ^^ k) s")
  have "rect m n g" and "rect m n r" using Suc gr by simp_all
  then show ?case
    using substep_refines(2,3) [of m n g r p] by (simp add: gr)
qed

text \<open>
  Claim C1. A tick with a map resamples both fields through the map once, before the first
  sub-step, and a tick without a map resamples nothing; then come exactly
  \<open>STEPS_PER_FRAME\<close> sub-steps, and each sub-step is the synchronous update of the
  specification: both deltas are computed, cell by cell, from the pair \<open>(G, R)\<close> before the
  sub-step, and then both fields are replaced. (Without a map the two fields must have one
  shape; behind a map they have the shape of the map.)
\<close>

theorem tick_is_advection_then_substeps:
  "(rect m n g \<and> rect m n r \<longrightarrow>
      update ext p None (g, r) = Some ((spec_substep p ^^ STEPS_PER_FRAME p) (g, r)))
   \<and> update ext p (Some c) (g, r)
       = Some ((spec_substep p ^^ STEPS_PER_FRAME p)
                 (map_coordinates ext g c, map_coordinates ext r c))"
  using update_without_map [of m n g r ext p] update_through_map [of ext p c g r] by blast

theorem tick_is_advection_then_substeps_witness:
  "rect 2 2 [[1, 2], [3, 4 :: real]] \<and> rect 2 2 [[0, 1], [1, 0 :: real]]
   \<and> update periodic default_params None ([[1, 2], [3, 4]], [[0, 1], [1, 0]])
       = Some ((spec_substep default_params ^^ STEPS_PER_FRAME default_params)
                 ([[1, 2], [3, 4]], [[0, 1], [1, 0]]))
   \<and> map_coordinates periodic [[1, 2], [3, 4]] ([[1, 1], [0, 0]], [[0, 1], [0, 1]]) = [[3, 4], [1, 2]]
   \<and> map_coordinates periodic [[0, 1], [1, 0]] ([[1, 1], [0, 0]], [[0, 1], [0, 1]]) = [[1, 0], [0, 1]]
   \<and> update periodic default_params (Some ([[1, 1], [0, 0]], [[0, 1], [0, 1]]))
         ([[1, 2], [3, 4]], [[0, 1], [1, 0]])
       = Some ((spec_substep default_params ^^ STEPS_PER_FRAME default_params)
                 ([[3, 4], [1, 2]], [[1, 0], [0, 1]]))"
proof -
  have a: "rect 2 2 [[1, 2], [3, 4 :: real]]" and b: "rect 2 2 [[0, 1], [1, 0 :: real]]"
    by (simp_all add: rect_def)
  have g: "map_coordinates periodic [[1, 2], [3, 4]] ([[1, 1], [0, 0]], [[0, 1], [0, 1]]) = [[3, 4], [1, 2]]"
    by (simp add: map_coordinates_def tab_def nrows_def ncols_def interpolate_def sample_def
        axis_index_def upt_conv_Cons)
  have r: "map_coordinates periodic [[0, 1], [1, 0]] ([[1, 1], [0, 0]], [[0, 1], [0, 1]]) = [[1, 0], [0, 1]]"
    by (simp add: map_coordinates_def tab_def nrows_def ncols_def interpolate_def sample_def
        axis_index_def upt_conv_Cons)
  show ?thesis
    using a b g r
      tick_is_advection_then_substeps [of 2 2 "[[1, 2], [3, 4]]" "[[0, 1], [1, 0]]" periodic default_params
        "([[1, 1], [0, 0]], [[0, 1], [0, 1]])"]
    by simp
qed

section \<open>Pure diffusion conserves the total\<close>

lemma spec_substep_diffusion:
  assumes "FEED p = 0" and "KILL p = 0" and "ETA p = 0"
  shows "spec_substep p (tab m n G, tab m n R) =
           (add (tab m n G) (scal (DIFF_G p * DT p) (laplacian (tab m n G))),
            add (tab m n R) (scal (DIFF_R p * DT p) (laplacian (tab m n R))))"
proof -
  have "tab m n (next_g p m n G R) = add (tab m n G) (scal (DIFF_G p * DT p) (laplacian (tab m n G)))"
    unfolding laplacian_tab scal_tab add_tab
    by (rule tab_cong) (simp add: next_g_def assms algebra_simps)
  moreover have "tab m n (next_r p m n G R) = add (tab m n R) (scal (DIFF_R p * DT p) (laplacian (tab m n R)))"
    unfolding laplacian_tab scal_tab add_tab
    by (rule tab_cong) (simp add: next_r_def assms algebra_simps)
  ultimately show ?thesis
    by (simp only: spec_substep_tab)
qed

lemma spec_substep_total:
  assumes "FEED p = 0" and "KILL p = 0" and "ETA p = 0" and "rect m n g" and "rect m n r"
  shows "total (fst (spec_substep p (g, r))) = total g \<and> total (snd (spec_substep p (g, r))) = total r"
proof -
  have g: "g = tab m n (\<lambda>i j. g ! i ! j)" and r: "r = tab m n (\<lambda>i j. r ! i ! j)"
    using assms(4,5) rect_as_tab by blast+
  have eq: "spec_substep p (g, r) =
           (add g (scal (DIFF_G p * DT p) (laplacian g)), add r (scal (DIFF_R p * DT p) (laplacian r)))"
    using spec_substep_diffusion [OF assms(1-3), of m n "\<lambda>i j. g ! i ! j" "\<lambda>i j. r ! i ! j"] g r
    by simp
  show ?thesis
    unfolding eq
    by (simp add: total_add [OF assms(4) rect_scal [OF rect_laplacian [OF assms(4)]]]
        total_add [OF assms(5) rect_scal [OF rect_laplacian [OF assms(5)]]]
        total_scal total_laplacian [OF assms(4)] total_laplacian [OF assms(5)])
qed

lemma funpow_spec_substep_total:
  assumes "FEED p = 0" and "KILL p = 0" and "ETA p = 0" and "rect m n (fst s)" and "rect m n (snd s)"
  shows "total (fst ((spec_substep p ^^ k) s)) = total (fst s)
       \<and> total (snd ((spec_substep p ^^ k) s)) = total (snd s)"
proof (induction k)
  case 0
  then show ?case by simp
next
  case (Suc k)
  obtain g r where gr: "(spec_substep p ^^ k) s = (g, r)" by (cases "(spec_substep p ^^ k) s")
  have rg: "rect m n g" and rr: "rect m n r"
    using funpow_spec_substep_rect [OF assms(4,5), where p = p and k = k] by (simp_all add: gr)
  show ?case
    using Suc spec_substep_total [OF assms(1-3) rg rr] by (simp add: gr)
qed

text \<open>
  Claim C5, amended. With feed, kill and coupling all 0 and advection disabled (no map), a
  tick on two fields of one shape succeeds and leaves the grid total of \<open>G + R\<close> as it was
  (in exact arithmetic).
\<close>

theorem pure_diffusion_conserves_total:
  assumes "FEED p = 0" and "KILL p = 0" and "ETA p = 0" and "rect m n g" and "rect m n r"
  shows "\<exists>g' r'. update ext p None (g, r) = Some (g', r') \<and> rect m n g' \<and> rect m n r'
           \<and> total (add g' r') = total (add g r)"
proof -
  obtain g' r' where gr: "(spec_substep p ^^ STEPS_PER_FRAME p) (g, r) = (g', r')"
    by (cases "(spec_substep p ^^ STEPS_PER_FRAME p) (g, r)")
  have u: "update ext p None (g, r) = Some (g', r')"
    using update_without_map [OF assms(4,5), of ext p] gr by simp
  have rg: "rect m n g'" and rr: "rect m n r'"
    using funpow_spec_substep_rect [where m = m and n = n and s = "(g, r)" and p = p and k = "STEPS_PER_FRAME p"] assms(4,5) gr
    by simp_all
  have "total g' = total g" and "total r' = total r"
    using funpow_spec_substep_total [OF assms(1-3), where m = m and n = n and s = "(g, r)" and k = "STEPS_PER_FRAME p"] assms(4,5) gr
    by simp_all
  then have "total (add g' r') = total (add g r)"
    by (simp add: total_add [OF rg rr] total_add [OF assms(4,5)])
  then show ?thesis
    using u rg rr by blast
qed

theorem pure_diffusion_conserves_total_witness:
  "FEED diffusion_params = 0 \<and> KILL diffusion_params = 0 \<and> ETA diffusion_params = 0
   \<and> rect 2 2 [[1, 2], [3, 4 :: real]] \<and> rect 2 2 [[0, 1], [1, 0 :: real]]
   \<and> (\<exists>g' r'. update periodic diffusion_params None ([[1, 2], [3, 4]], [[0, 1], [1, 0]]) = Some (g', r')
           \<and> rect 2 2 g' \<and> rect 2 2 r'
           \<and> total (add g' r') = total (add [[1, 2], [3, 4]] [[0, 1], [1, 0]]))"
proof -
  have p: "FEED diffusion_params = 0" "KILL diffusion_params = 0" "ETA diffusion_params = 0"
    by (simp_all add: diffusion_params_def default_params_def)
  have a: "rect 2 2 [[1, 2], [3, 4 :: real]]" and b: "rect 2 2 [[0, 1], [1, 0 :: real]]"
    by (simp_all add: rect_def)
  show ?thesis
    using p a b pure_diffusion_conserves_total [OF p a b, of periodic] by blast
qed

subsection \<open>A tick that advects\<close>

lemma cos_upper:
  assumes "0 < (x::real)"
  shows "cos x \<le> 1 - x\<^sup>2 / 2 + x ^ 4 / 24"
proof -
  obtain t where t: "cos x = (\<Sum>m<4. cos_coeff m * x ^ m) + cos (t + 1 / 2 * real 4 * pi) / fact 4 * x ^ 4"
    using Maclaurin_cos_expansion2 [OF assms, of 4] by auto
  have four: "{..<4::nat} = {0, 1, 2, 3}" by auto
  have s: "(\<Sum>m<4. cos_coeff m * x ^ m) = 1 - x\<^sup>2 / 2"
    unfolding four by (simp add: cos_coeff_def)
  have f: "fact 4 = (24::real)" by (simp add: fact_numeral)
  have eq: "cos x = 1 - x\<^sup>2 / 2 + cos (t + 2 * pi) / 24 * x ^ 4"
    using t unfolding s f by simp
  have "cos (t + 2 * pi) / 24 * x ^ 4 \<le> 1 / 24 * x ^ 4"
    by (intro mult_right_mono divide_right_mono) simp_all
  then show ?thesis
    using eq by simp
qed

lemma total_tab_2: "total (tab 2 2 f) = f 0 0 + f 0 1 + f 1 0 + f 1 1"
  by (simp add: total_def tab_def upt_conv_Cons)

lemma sample_corner_nonneg: "0 \<le> sample periodic corner_field i j"
proof -
  have "i mod 2 = 0 \<or> i mod 2 = 1" by presburger
  then have i: "nat (i mod 2) = 0 \<or> nat (i mod 2) = 1" by auto
  have "j mod 2 = 0 \<or> j mod 2 = 1" by presburger
  then have j: "nat (j mod 2) = 0 \<or> nat (j mod 2) = 1" by auto
  have a: "axis_index periodic (Suc (Suc 0)) k = nat (k mod 2)" for k
    by (auto simp add: axis_index_def periodic_def)
  show ?thesis
    using i j by (auto simp add: sample_def corner_field_def nrows_def ncols_def a)
qed

lemma interpolate_corner_nonneg: "0 \<le> interpolate periodic corner_field y x"
proof -
  have fy: "0 \<le> y - of_int \<lfloor>y\<rfloor>" "0 \<le> 1 - (y - of_int \<lfloor>y\<rfloor>)" by linarith+
  have fx: "0 \<le> x - of_int \<lfloor>x\<rfloor>" "0 \<le> 1 - (x - of_int \<lfloor>x\<rfloor>)" by linarith+
  show ?thesis
    unfolding interpolate_def Let_def
    by (intro add_nonneg_nonneg mult_nonneg_nonneg fy fx sample_corner_nonneg)
qed

lemma corner_source_cells:
  "build_keplerian_coords 2 s =
     (tab 2 2 (\<lambda>i j. (real j - 1) * sin (s * (1 / warp_radius 2 i j))
                    + (real i - 1) * cos (s * (1 / warp_radius 2 i j)) + 1),
      tab 2 2 (\<lambda>i j. (real j - 1) * cos (s * (1 / warp_radius 2 i j))
                    - (real i - 1) * sin (s * (1 / warp_radius 2 i j)) + 1))"
  by (simp add: build_keplerian_coords_tab)

lemma map_coordinates_corner:
  "map_coordinates ext z (build_keplerian_coords 2 s) =
     tab 2 2 (\<lambda>i j. interpolate ext z
        ((real j - 1) * sin (s * (1 / warp_radius 2 i j)) + (real i - 1) * cos (s * (1 / warp_radius 2 i j)) + 1)
        ((real j - 1) * cos (s * (1 / warp_radius 2 i j)) - (real i - 1) * sin (s * (1 / warp_radius 2 i j)) + 1))"
  unfolding corner_source_cells map_coordinates_def
  by (auto simp add: ncols_tab intro!: tab_cong)

lemma interpolate_corner_centre: "interpolate periodic corner_field 1 1 = 1"
  by (simp add: interpolate_def sample_def axis_index_def corner_field_def nrows_def ncols_def)

lemma interpolate_corner_left:
  assumes "0 < a" and "a \<le> 1" and "0 < b" and "b \<le> 1"
  shows "interpolate periodic corner_field (1 - a) (1 - b) = (1 - a) * (1 - b)"
proof -
  have fa: "\<lfloor>1 - a\<rfloor> = 0" and fb: "\<lfloor>1 - b\<rfloor> = 0"
    using assms by (simp_all add: floor_eq_iff)
  show ?thesis
    by (simp add: interpolate_def Let_def fa fb sample_def axis_index_def corner_field_def nrows_def ncols_def)
qed


lemma advected_corner_total:
  "1 + 1 / 1000 \<le> total (map_coordinates periodic corner_field (build_keplerian_coords 2 ROTATION_STRENGTH))"
proof -
  define t :: real where "t = 1 / 20"
  have w10: "warp_radius 2 (Suc 0) 0 = 1"
    by (simp add: warp_radius_def)
  have tpos: "0 < t" and tpi: "t < pi / 2"
    using pi_ge_two by (simp_all add: t_def)
  have s0: "0 < sin t"
    using tpos tpi by (intro sin_gt_zero) simp_all
  have s1: "sin t \<le> 1 / 20"
    using sin_x_le_x [of t] tpos by (simp add: t_def)
  have c0: "0 < cos t"
    using tpos tpi by (intro cos_gt_zero) simp_all
  have c1: "cos t \<le> 1 - 4799 / 3840000"
    using cos_upper [OF tpos] by (simp add: t_def power2_eq_square power4_eq_xxxx)
  have cell: "interpolate periodic corner_field (1 - sin t) (1 - cos t) = (1 - sin t) * (1 - cos t)"
    using s0 c0 by (intro interpolate_corner_left) simp_all
  have "19 / 20 * (4799 / 3840000) \<le> (1 - sin t) * (1 - cos t)"
    using s1 c1 by (intro mult_mono) simp_all
  then have low: "1 / 1000 \<le> interpolate periodic corner_field (1 - sin t) (1 - cos t)"
    unfolding cell by simp
  have f10: "1 / 1000 \<le> interpolate periodic corner_field
        ((real 0 - 1) * sin (ROTATION_STRENGTH * (1 / warp_radius 2 1 0))
           + (real 1 - 1) * cos (ROTATION_STRENGTH * (1 / warp_radius 2 1 0)) + 1)
        ((real 0 - 1) * cos (ROTATION_STRENGTH * (1 / warp_radius 2 1 0))
           - (real 1 - 1) * sin (ROTATION_STRENGTH * (1 / warp_radius 2 1 0)) + 1)"
    using low by (simp add: w10 ROTATION_STRENGTH_def t_def)
  have f11: "interpolate periodic corner_field
        ((real 1 - 1) * sin (ROTATION_STRENGTH * (1 / warp_radius 2 1 1))
           + (real 1 - 1) * cos (ROTATION_STRENGTH * (1 / warp_radius 2 1 1)) + 1)
        ((real 1 - 1) * cos (ROTATION_STRENGTH * (1 / warp_radius 2 1 1))
           - (real 1 - 1) * sin (ROTATION_STRENGTH * (1 / warp_radius 2 1 1)) + 1) = 1"
    by (simp add: interpolate_corner_centre)
  show ?thesis
    unfolding map_coordinates_corner total_tab_2
    using f10 f11 interpolate_corner_nonneg
      [of "(real 0 - 1) * sin (ROTATION_STRENGTH * (1 / warp_radius 2 0 0))
           + (real 0 - 1) * cos (ROTATION_STRENGTH * (1 / warp_radius 2 0 0)) + 1"
          "(real 0 - 1) * cos (ROTATION_STRENGTH * (1 / warp_radius 2 0 0))
           - (real 0 - 1) * sin (ROTATION_STRENGTH * (1 / warp_radius 2 0 0)) + 1"]
      interpolate_corner_nonneg
      [of "(real 1 - 1) * sin (ROTATION_STRENGTH * (1 / warp_radius 2 0 1))
           + (real 0 - 1) * cos (ROTATION_STRENGTH * (1 / warp_radius 2 0 1)) + 1"
          "(real 1 - 1) * cos (ROTATION_STRENGTH * (1 / warp_radius 2 0 1))
           - (real 0 - 1) * sin (ROTATION_STRENGTH * (1 / warp_radius 2 0 1)) + 1"]
    by linarith
qed

text \<open>
  The claim C5 as it is stated, for every tick, fails when the tick advects: on a
  \<open>2 \<times> 2\<close> grid, with the map the source builds for its rotation strength and two fields
  that are 1 at the centre cell and 0 elsewhere, the total of \<open>G + R\<close> is 2 before the tick
  and at least \<open>2 + 1/500\<close> after it, with feed, kill and coupling all 0. The linear
  interpolation of the resampling does not conserve the total.
\<close>

theorem advection_changes_total_counterexample:
  "FEED diffusion_params = 0 \<and> KILL diffusion_params = 0 \<and> ETA diffusion_params = 0
   \<and> mass (corner_field, corner_field) = 2
   \<and> update periodic diffusion_params (Some (build_keplerian_coords 2 ROTATION_STRENGTH))
         (corner_field, corner_field) \<noteq> None
   \<and> 2 + 1 / 500 \<le> mass (the (update periodic diffusion_params
         (Some (build_keplerian_coords 2 ROTATION_STRENGTH)) (corner_field, corner_field)))"
proof -
  let ?c = "build_keplerian_coords 2 ROTATION_STRENGTH"
  let ?a = "map_coordinates periodic corner_field ?c"
  let ?k = "STEPS_PER_FRAME diffusion_params"
  have p: "FEED diffusion_params = 0" "KILL diffusion_params = 0" "ETA diffusion_params = 0"
    by (simp_all add: diffusion_params_def default_params_def)
  have u: "update periodic diffusion_params (Some ?c) (corner_field, corner_field)
             = Some ((spec_substep diffusion_params ^^ ?k) (?a, ?a))"
    by (rule update_through_map)
  have ra: "rect 2 2 ?a"
    unfolding map_coordinates_corner by simp
  have a: "rect 2 2 (fst (?a, ?a))" and b: "rect 2 2 (snd (?a, ?a))"
    using ra by simp_all
  note rs = funpow_spec_substep_rect [OF a b, where p = diffusion_params and k = ?k]
  note ts = funpow_spec_substep_total [OF p a b, where k = ?k]
  have "mass ((spec_substep diffusion_params ^^ ?k) (?a, ?a)) = total ?a + total ?a"
    using rs ts by (simp add: mass_def total_add [where m = 2 and n = 2])
  then have "2 + 1 / 500 \<le> mass ((spec_substep diffusion_params ^^ ?k) (?a, ?a))"
    using advected_corner_total by simp
  moreover have "mass (corner_field, corner_field) = 2"
    by (simp add: mass_def corner_field_def total_def add_def)
  ultimately show ?thesis
    using p by (simp add: u)
qed

section \<open>The first tick at the centre of the seed\<close>

lemma funpow_spec_substep_tab:
  "(spec_substep p ^^ k) (tab m n (fst GR), tab m n (snd GR)) =
     (tab m n (fst ((cell_step p m n ^^ k) GR)), tab m n (snd ((cell_step p m n ^^ k) GR)))"
proof (induction k)
  case 0
  then show ?case by simp
next
  case (Suc k)
  then show ?case
    by (simp add: spec_substep_tab cell_step_def)
qed

lemma pred_index: "0 < i \<Longrightarrow> i < m \<Longrightarrow> nat ((int i - 1) mod int m) = i - 1"
  by (simp add: nat_diff_distrib)

lemma succ_index: "i + 1 < m \<Longrightarrow> nat ((int i + 1) mod int m) = i + 1"
  by (simp add: nat_add_distrib)

lemma uniform_step:
  assumes u: "uniform_block c (Suc d) GR ab" and c: "Suc d \<le> c" and m: "c + Suc d < m" and n: "c + Suc d < n"
  shows "uniform_block c d (cell_step p m n GR) (react p ab)"
  unfolding uniform_block_def
proof (intro allI impI)
  fix i j
  assume ij: "c - d \<le> i \<and> i \<le> c + d \<and> c - d \<le> j \<and> j \<le> c + d"
  have i0: "0 < i" "i < m" "i + 1 < m" and j0: "0 < j" "j < n" "j + 1 < n"
    using ij c m n by linarith+
  have val: "fst GR i' j' = fst ab \<and> snd GR i' j' = snd ab"
    if "i - 1 \<le> i'" "i' \<le> i + 1" "j - 1 \<le> j'" "j' \<le> j + 1" for i' j'
  proof -
    have "c - Suc d \<le> i'" and "i' \<le> c + Suc d" and "c - Suc d \<le> j'" and "j' \<le> c + Suc d"
      using that ij by arith+
    then show ?thesis
      using u by (simp add: uniform_block_def)
  qed
  have here: "fst GR i j = fst ab" "snd GR i j = snd ab"
    using val [of i j] by simp_all
  have up: "fst GR (i - Suc 0) j = fst ab" "snd GR (i - Suc 0) j = snd ab"
    using val [of "i - 1" j] by simp_all
  have down: "fst GR (Suc i) j = fst ab" "snd GR (Suc i) j = snd ab"
    using val [of "i + 1" j] by simp_all
  have left: "fst GR i (j - Suc 0) = fst ab" "snd GR i (j - Suc 0) = snd ab"
    using val [of i "j - 1"] by simp_all
  have right: "fst GR i (Suc j) = fst ab" "snd GR i (Suc j) = snd ab"
    using val [of i "j + 1"] by simp_all
  show "fst (cell_step p m n GR) i j = fst (react p ab) \<and> snd (cell_step p m n GR) i j = snd (react p ab)"
    by (simp add: cell_step_def next_g_def next_r_def react_def
        pred_index [OF i0(1,2)] succ_index [OF i0(3)] pred_index [OF j0(1,2)] succ_index [OF j0(3)]
        here up down left right)
qed

lemma uniform_funpow:
  assumes "uniform_block c (d + k) GR ab" and "d + k \<le> c" and "c + d + k < m" and "c + d + k < n"
  shows "uniform_block c d ((cell_step p m n ^^ k) GR) ((react p ^^ k) ab)"
  using assms
proof (induction k arbitrary: d)
  case 0
  then show ?case by simp
next
  case (Suc k)
  have "uniform_block c (Suc d) ((cell_step p m n ^^ k) GR) ((react p ^^ k) ab)"
    using Suc.prems by (intro Suc.IH) simp_all
  then have "uniform_block c d (cell_step p m n ((cell_step p m n ^^ k) GR)) (react p ((react p ^^ k) ab))"
    using Suc.prems by (intro uniform_step) simp_all
  then show ?case by simp
qed


lemma react_default:
  "react default_params ab =
     (fst ab * (24 / 25 - (snd ab)\<^sup>2) + 1 / 25, snd ab * (9 / 10 + fst ab * snd ab))"
  by (simp add: react_def default_params_def power2_eq_square field_simps)

lemma box_step:
  assumes b: "box gl ru ab" and gl: "2 / 5 \<le> gl" and ru: "ru \<le> 1 / 2"
    and gl': "gl' \<le> gl * (24 / 25 - ru\<^sup>2) + 1 / 25" and ru': "ru * (9 / 10 + ru / 2) \<le> ru'"
  shows "box gl' ru' (react default_params ab)"
    and "fst (react default_params ab) \<le> 489 / 1000"
proof -
  obtain g r where ab: "ab = (g, r)" by (cases ab)
  have g: "gl \<le> g" "g \<le> 1 / 2" and r: "1 / 4 \<le> r" "r \<le> ru"
    using b by (simp_all add: box_def ab)
  have g0: "0 \<le> g" and r0: "0 \<le> r" and gl0: "0 \<le> gl" and ru0: "0 \<le> ru"
    using g r gl by linarith+
  have rlo: "1 / 16 \<le> r\<^sup>2"
    using mult_mono [of "1 / 4" r "1 / 4" r] r r0 by (simp add: power2_eq_square)
  have rhi: "r\<^sup>2 \<le> ru\<^sup>2"
    using r r0 by (simp add: power_mono)
  have ruhi: "ru\<^sup>2 \<le> 1 / 4"
    using mult_mono [of ru "1 / 2" ru "1 / 2"] ru ru0 by (simp add: power2_eq_square)
  have "g * (24 / 25 - r\<^sup>2) \<le> 1 / 2 * (24 / 25 - 1 / 16)"
    using g g0 rlo rhi ruhi by (intro mult_mono) linarith+
  then have up: "g * (24 / 25 - r\<^sup>2) \<le> 359 / 800"
    by simp
  have lo: "gl * (24 / 25 - ru\<^sup>2) \<le> g * (24 / 25 - r\<^sup>2)"
    using g gl0 g0 rhi ruhi by (intro mult_mono) linarith+
  have "2 / 5 * (1 / 4) \<le> g * r"
    using g gl r by (intro mult_mono) linarith+
  then have gr_lo: "1 / 10 \<le> g * r"
    by simp
  have "g * r \<le> 1 / 2 * ru"
    using g g0 r r0 by (intro mult_mono) linarith+
  then have gr_hi: "g * r \<le> ru / 2"
    by simp
  have r_lo: "r * 1 \<le> r * (9 / 10 + g * r)"
    using gr_lo r0 by (intro mult_left_mono) linarith+
  have r_hi: "r * (9 / 10 + g * r) \<le> ru * (9 / 10 + ru / 2)"
    using gr_hi gr_lo r r0 ru0 by (intro mult_mono) linarith+
  have e: "react default_params ab = (g * (24 / 25 - r\<^sup>2) + 1 / 25, r * (9 / 10 + g * r))"
    by (simp add: react_default ab)
  have f1: "gl' \<le> g * (24 / 25 - r\<^sup>2) + 1 / 25"
    using lo gl' by linarith
  have f2: "g * (24 / 25 - r\<^sup>2) + 1 / 25 \<le> 489 / 1000"
    using up by linarith
  have f3: "1 / 4 \<le> r * (9 / 10 + g * r)"
    using r_lo r by linarith
  have f4: "r * (9 / 10 + g * r) \<le> ru'"
    using r_hi ru' by linarith
  show "fst (react default_params ab) \<le> 489 / 1000"
    unfolding e using f2 by (simp only: fst_conv)
  have f2': "g * (24 / 25 - r\<^sup>2) + 1 / 25 \<le> 1 / 2"
    using f2 by linarith
  show "box gl' ru' (react default_params ab)"
    unfolding e box_def using f1 f2' f3 f4 by (simp only: fst_conv snd_conv)
qed

lemma centre_after_eight_steps: "fst ((react default_params ^^ 8) (1 / 2, 1 / 4)) \<le> 489 / 1000"
proof -
  let ?f = "react default_params"
  have b0: "box (1 / 2) (1 / 4) (1 / 2, 1 / 4)"
    by (simp add: box_def)
  have b1: "box (61 / 125) (257 / 1000) (?f (1 / 2, 1 / 4))"
    by (rule box_step(1) [OF b0]) (simp_all add: power2_eq_square)
  have b2: "box (119 / 250) (53 / 200) (?f (?f (1 / 2, 1 / 4)))"
    by (rule box_step(1) [OF b1]) (simp_all add: power2_eq_square)
  have b3: "box (463 / 1000) (137 / 500) (?f (?f (?f (1 / 2, 1 / 4))))"
    by (rule box_step(1) [OF b2]) (simp_all add: power2_eq_square)
  have b4: "box (449 / 1000) (57 / 200) (?f (?f (?f (?f (1 / 2, 1 / 4)))))"
    by (rule box_step(1) [OF b3]) (simp_all add: power2_eq_square)
  have b5: "box (217 / 500) (149 / 500) (?f (?f (?f (?f (?f (1 / 2, 1 / 4))))))"
    by (rule box_step(1) [OF b4]) (simp_all add: power2_eq_square)
  have b6: "box (209 / 500) (313 / 1000) (?f (?f (?f (?f (?f (?f (1 / 2, 1 / 4)))))))"
    by (rule box_step(1) [OF b5]) (simp_all add: power2_eq_square)
  have b7: "box (2 / 5) (331 / 1000) (?f (?f (?f (?f (?f (?f (?f (1 / 2, 1 / 4))))))))"
    by (rule box_step(1) [OF b6]) (simp_all add: power2_eq_square)
  have "fst (?f (?f (?f (?f (?f (?f (?f (?f (1 / 2, 1 / 4))))))))) \<le> 489 / 1000"
    by (rule box_step(2) [OF b7, where gl' = 0 and ru' = 1]) (simp_all add: power2_eq_square)
  then show ?thesis
    by (simp add: eval_nat_numeral funpow_swap1)
qed


lemma seed_block_uniform:
  "uniform_block 100 8
     (\<lambda>i j. if in_block 200 10 i j then 1 / 2 else 1,
      \<lambda>i j. if in_block 200 10 i j then 1 / 4 else 0)
     (1 / 2, 1 / 4)"
  unfolding uniform_block_def in_block_def by auto

lemma centre_cell_after_tick:
  "fst ((cell_step default_params 200 200 ^^ 8)
     (\<lambda>i j. if in_block 200 10 i j then 1 / 2 else 1,
      \<lambda>i j. if in_block 200 10 i j then 1 / 4 else 0)) 100 100
   \<le> 489 / 1000"
proof -
  have "uniform_block 100 0 ((cell_step default_params 200 200 ^^ 8)
     (\<lambda>i j. if in_block 200 10 i j then 1 / 2 else 1,
      \<lambda>i j. if in_block 200 10 i j then 1 / 4 else 0))
     ((react default_params ^^ 8) (1 / 2, 1 / 4))"
    by (rule uniform_funpow) (simp_all add: seed_block_uniform)
  then show ?thesis
    using centre_after_eight_steps by (simp add: uniform_block_def)
qed

text \<open>
  Claim C3. The noise-free initial state of the default grid (\<open>N = 200\<close>, seed radius
  10, noise level 0, so that the draws do not matter) is \<open>G = 1/2\<close>, \<open>R = 1/4\<close> on the
  centred block and \<open>G = 1\<close>, \<open>R = 0\<close> elsewhere. From it, one tick without advection
  under the default parameters (8 sub-steps) returns, and the value of \<open>G\<close> at the centre
  cell, \<open>1/2\<close> before the tick, is strictly smaller after it.
\<close>

theorem centre_gas_decreases:
  "initialize_fields N 10 0 rnd =
       (tab 200 200 (\<lambda>i j. if in_block 200 10 i j then 1 / 2 else 1),
        tab 200 200 (\<lambda>i j. if in_block 200 10 i j then 1 / 4 else 0))
   \<and> fst (initialize_fields N 10 0 rnd) ! (N div 2) ! (N div 2) = 1 / 2
   \<and> (\<exists>g' r'. update ext default_params None (initialize_fields N 10 0 rnd) = Some (g', r')
          \<and> g' ! (N div 2) ! (N div 2) < 1 / 2)"
proof -
  let ?G = "\<lambda>i j. if in_block 200 10 i j then 1 / 2 else (1::real)"
  let ?R = "\<lambda>i j. if in_block 200 10 i j then 1 / 4 else (0::real)"
  let ?GR = "(cell_step default_params 200 200 ^^ 8) (?G, ?R)"
  have init: "initialize_fields N 10 0 rnd = (tab 200 200 ?G, tab 200 200 ?R)"
    using initialize_fields_tab [of 10 200 0 rnd] by (simp add: N_def)
  have "update ext default_params None (tab 200 200 ?G, tab 200 200 ?R)
          = Some ((spec_substep default_params ^^ STEPS_PER_FRAME default_params)
                    (tab 200 200 ?G, tab 200 200 ?R))"
    by (rule update_without_map [where m = 200 and n = 200]) simp_all
  also have "STEPS_PER_FRAME default_params = 8"
    by (simp add: default_params_def)
  also have "(spec_substep default_params ^^ 8) (tab 200 200 ?G, tab 200 200 ?R)
          = (tab 200 200 (fst ?GR), tab 200 200 (snd ?GR))"
    using funpow_spec_substep_tab [where p = default_params and k = 8 and m = 200 and n = 200 and GR = "(?G, ?R)"]
    by simp
  finally have u: "update ext default_params None (initialize_fields N 10 0 rnd)
          = Some (tab 200 200 (fst ?GR), tab 200 200 (snd ?GR))"
    by (simp only: init)
  have before: "fst (initialize_fields N 10 0 rnd) ! (N div 2) ! (N div 2) = 1 / 2"
    unfolding init by (simp add: N_def in_block_def)
  have "tab 200 200 (fst ?GR) ! (N div 2) ! (N div 2) = fst ?GR 100 100"
    by (simp add: N_def)
  also have "\<dots> \<le> 489 / 1000"
    by (rule centre_cell_after_tick)
  finally have after: "tab 200 200 (fst ?GR) ! (N div 2) ! (N div 2) < 1 / 2"
    by simp
  show ?thesis
    using init u before after by blast
qed

section \<open>The spectrum of a real field\<close>

lemma twiddle_add: "twiddle m (d + e) = twiddle m d * twiddle m e"
  by (simp add: twiddle_def cis_mult add_divide_distrib ring_distribs)

lemma twiddle_period:
  assumes "0 < m"
  shows "twiddle m (int m * t) = 1"
proof -
  have "2 * pi * of_int (int m * t) / real m = 2 * pi * of_int t"
    using assms by simp
  then show ?thesis
    by (simp only: twiddle_def) (simp add: cis_multiple_2pi)
qed

lemma twiddle_mod:
  assumes "0 < m"
  shows "twiddle m (e mod int m) = twiddle m e"
proof -
  have "twiddle m e = twiddle m (int m * (e div int m) + e mod int m)"
    by simp
  also have "\<dots> = twiddle m (e mod int m)"
    by (simp only: twiddle_add twiddle_period [OF assms]) simp
  finally show ?thesis by simp
qed

lemma twiddle_cnj: "cnj (twiddle m e) = twiddle m (- e)"
  by (simp add: twiddle_def cis_cnj)


lemma fft2_term:
  assumes "0 < m" and "0 < n"
  shows "cis (- (2 * pi * (real k * real a / real m + real l * real b / real n)))
           = twiddle m (- (int k * int a)) * twiddle n (- (int l * int b))"
proof -
  have "2 * pi * of_int (- (int k * int a)) / real m + 2 * pi * of_int (- (int l * int b)) / real n
          = - (2 * pi * (real k * real a / real m + real l * real b / real n))"
    by (simp add: ring_distribs)
  then show ?thesis
    by (simp only: twiddle_def cis_mult)
qed

lemma reflect_product_mod:
  assumes "k' = (- k) mod (m::int)"
  shows "(- (k' * a)) mod m = (k * a) mod m"
proof -
  have "(- (k' * a)) mod m = (- ((- k) mod m * a mod m)) mod m"
    unfolding assms by (simp only: mod_minus_eq)
  also have "\<dots> = (- ((- k) * a mod m)) mod m"
    by (simp only: mod_mult_left_eq)
  also have "\<dots> = (- ((- k) * a)) mod m"
    by (simp only: mod_minus_eq)
  finally show ?thesis by simp
qed

lemma twiddle_reflect:
  assumes "0 < m" and "int k' = (- int k) mod int m"
  shows "twiddle m (- (int k' * a)) = cnj (twiddle m (- (int k * a)))"
proof -
  have "twiddle m (- (int k' * a)) = twiddle m ((- (int k' * a)) mod int m)"
    by (simp only: twiddle_mod [OF assms(1)])
  also have "\<dots> = twiddle m ((int k * a) mod int m)"
    by (simp only: reflect_product_mod [OF assms(2)])
  also have "\<dots> = twiddle m (int k * a)"
    by (simp only: twiddle_mod [OF assms(1)])
  finally show ?thesis
    by (simp add: twiddle_cnj)
qed

lemma dft_reflect:
  assumes "0 < m" and "0 < n"
    and "int k' = (- int k) mod int m" and "int l' = (- int l) mod int n"
  shows "(\<Sum>a<m. \<Sum>b<n. of_real (Z a b)
             * cis (- (2 * pi * (real k' * real a / real m + real l' * real b / real n))))
       = cnj (\<Sum>a<m. \<Sum>b<n. of_real (Z a b)
             * cis (- (2 * pi * (real k * real a / real m + real l * real b / real n))))"
  unfolding fft2_term [OF assms(1,2)] cnj_sum complex_cnj_mult complex_cnj_complex_of_real
    twiddle_reflect [OF assms(1,3)] twiddle_reflect [OF assms(2,4)]
  by (rule refl)


lemma fft2_tab:
  assumes "rect m n z" and "0 < m"
  shows "fft2 z = tab m n (\<lambda>k l. \<Sum>a<m. \<Sum>b<n. of_real (z ! a ! b)
             * cis (- (2 * pi * (real k * real a / real m + real l * real b / real n))))"
  using assms by (simp add: fft2_def Let_def nrows_rect ncols_rect)

lemma reflect_less: "0 < len \<Longrightarrow> reflect len i < len"
  by (simp add: reflect_def mod_index_less)

lemma reflect_inside: "odd len \<or> 0 < i \<Longrightarrow> i < len \<Longrightarrow> reflect len i = 2 * (len div 2) - i"
proof -
  assume a: "odd len \<or> 0 < i" and i: "i < len"
  have lo: "0 \<le> 2 * int (len div 2) - int i" using a i by (auto elim: oddE)
  have hi: "2 * int (len div 2) - int i < int len" using a i by (auto elim: oddE)
  have "(2 * int (len div 2) - int i) mod int len = 2 * int (len div 2) - int i"
    using lo hi by simp
  then show ?thesis
    using lo by (simp add: reflect_def nat_diff_distrib)
qed

lemma shifted_index_reflect:
  "int (nat ((int (reflect len i) - int (len div 2)) mod int len))
     = (- int (nat ((int i - int (len div 2)) mod int len))) mod int len" if "0 < len"
proof -
  have p: "0 \<le> (k::int) mod int len" for k using that by simp
  have "(int (reflect len i) - int (len div 2)) mod int len
          = ((2 * int (len div 2) - int i) mod int len - int (len div 2)) mod int len"
    using that by (simp add: reflect_def)
  also have "\<dots> = (2 * int (len div 2) - int i - int (len div 2)) mod int len"
    by (simp only: mod_diff_left_eq)
  also have "\<dots> = (- (int i - int (len div 2))) mod int len"
    by (simp add: algebra_simps)
  also have "\<dots> = (- ((int i - int (len div 2)) mod int len)) mod int len"
    by (simp only: mod_minus_eq)
  finally show ?thesis
    using p by simp
qed

lemma get_power_spectrum_cell:
  assumes z: "rect m n z" and i: "i < m" and j: "j < n"
  shows "get_power_spectrum z ! i ! j =
           ln (cmod (\<Sum>a<m. \<Sum>b<n. of_real (z ! a ! b)
                 * cis (- (2 * pi * (real (nat ((int i - int (m div 2)) mod int m)) * real a / real m
                                    + real (nat ((int j - int (n div 2)) mod int n)) * real b / real n))))
               + 1 / 10 ^ 9)"
proof -
  let ?F = "\<lambda>k l. \<Sum>a<m. \<Sum>b<n. of_real (z ! a ! b)
             * cis (- (2 * pi * (real k * real a / real m + real l * real b / real n)))"
  have m: "0 < m" and n: "0 < n" using i j by simp_all
  have f: "fft2 z = tab m n ?F" by (rule fft2_tab [OF z m])
  have sh: "fftshift (tab m n ?F) = roll_axis1 (int (n div 2)) (roll_axis0 (int (m div 2)) (tab m n ?F))"
    using m by (simp add: fftshift_def ncols_tab)
  have r0: "rect m n (roll_axis0 (int (m div 2)) (tab m n ?F))"
    by (rule rect_roll_axis0) simp
  have r1: "rect m n (roll_axis1 (int (n div 2)) (roll_axis0 (int (m div 2)) (tab m n ?F)))"
    by (rule rect_roll_axis1 [OF r0])
  have cell: "roll_axis1 (int (n div 2)) (roll_axis0 (int (m div 2)) (tab m n ?F)) ! i ! j
                = ?F (nat ((int i - int (m div 2)) mod int m)) (nat ((int j - int (n div 2)) mod int n))"
    using mod_index_less [OF m, of "int i - int (m div 2)"] mod_index_less [OF n, of "int j - int (n div 2)"]
    by (simp add: roll_axis1_nth [OF r0 i j] roll_axis0_nth [OF rect_tab i])
  have "get_power_spectrum z ! i ! j
          = ln (cmod (roll_axis1 (int (n div 2)) (roll_axis0 (int (m div 2)) (tab m n ?F)) ! i ! j) + 1 / 10 ^ 9)"
    using rect_length [OF r1] rect_row [OF r1 i] i j
    by (simp add: get_power_spectrum_def Let_def f sh)
  then show ?thesis
    by (simp only: cell)
qed

lemma rect_get_power_spectrum:
  assumes "rect m n z"
  shows "rect m n (get_power_spectrum z)"
proof (cases "m = 0")
  case True
  then show ?thesis
    using assms by (simp add: get_power_spectrum_def fft2_def fftshift_def Let_def rect_def nrows_def
        roll_axis0_def roll_axis1_def roll_def tab_def)
next
  case False
  then have m: "0 < m" by simp
  let ?F = "\<lambda>k l. \<Sum>a<m. \<Sum>b<n. of_real (z ! a ! b)
             * cis (- (2 * pi * (real k * real a / real m + real l * real b / real n)))"
  have f: "fft2 z = tab m n ?F" by (rule fft2_tab [OF assms m])
  have "rect m n (fftshift (tab m n ?F))"
    unfolding fftshift_def by (intro rect_roll_axis1 rect_roll_axis0) simp
  then show ?thesis
    by (simp add: get_power_spectrum_def Let_def f rect_def list_all_iff)
qed

lemma total_as_sum:
  assumes "rect m n z"
  shows "total z = (\<Sum>a<m. \<Sum>b<n. z ! a ! b)"
proof -
  have "total z = (\<Sum>a = 0..<m. map sum_list z ! a)"
    using rect_length [OF assms] by (simp add: total_def sum_list_sum_nth)
  also have "\<dots> = (\<Sum>a = 0..<m. \<Sum>b = 0..<n. z ! a ! b)"
  proof (rule sum.cong)
    fix a assume "a \<in> {0..<m}"
    then have a: "a < m" by simp
    show "map sum_list z ! a = (\<Sum>b = 0..<n. z ! a ! b)"
      using rect_length [OF assms] rect_row [OF assms a] a by (simp add: sum_list_sum_nth)
  qed simp
  finally show ?thesis
    by (simp add: lessThan_atLeast0)
qed

lemma get_power_spectrum_centre:
  assumes z: "rect m n z" and m: "0 < m" and n: "0 < n"
  shows "get_power_spectrum z ! (m div 2) ! (n div 2) = ln (\<bar>total z\<bar> + 1 / 10 ^ 9)"
proof -
  have i: "m div 2 < m" and j: "n div 2 < n" using m n by simp_all
  have "(\<Sum>a<m. \<Sum>b<n. complex_of_real (z ! a ! b)) = complex_of_real (total z)"
    by (simp add: total_as_sum [OF z])
  then show ?thesis
    by (simp add: get_power_spectrum_cell [OF z i j])
qed

text \<open>
  Claim C8. For a real array \<open>z\<close> of shape \<open>(m, n)\<close>, the spectrum has the same shape, its
  centre cell \<open>(m div 2, n div 2)\<close> holds the zero frequency (the logarithm of the absolute
  value of the sum of \<open>z\<close>, plus epsilon), and the value at the mirror image of a cell through
  the centre is the value at the cell. The mirror image of an index is \<open>2 * centre - index\<close>
  wherever that is an index of the array, that is, everywhere but at index 0 of an axis of
  even length, which the periodic axis maps to itself.
\<close>

theorem spectrum_point_symmetric:
  assumes "rect m n z" and "i < m" and "j < n"
  shows "rect m n (get_power_spectrum z)
       \<and> get_power_spectrum z ! (m div 2) ! (n div 2) = ln (\<bar>total z\<bar> + 1 / 10 ^ 9)
       \<and> reflect m i < m \<and> reflect n j < n
       \<and> get_power_spectrum z ! reflect m i ! reflect n j = get_power_spectrum z ! i ! j
       \<and> (odd m \<or> 0 < i \<longrightarrow> reflect m i = 2 * (m div 2) - i)
       \<and> (odd n \<or> 0 < j \<longrightarrow> reflect n j = 2 * (n div 2) - j)"
proof -
  have m: "0 < m" and n: "0 < n" using assms by simp_all
  note ri = reflect_less [OF m, of i] and rj = reflect_less [OF n, of j]
  have "get_power_spectrum z ! reflect m i ! reflect n j = get_power_spectrum z ! i ! j"
    unfolding get_power_spectrum_cell [OF assms] get_power_spectrum_cell [OF assms(1) ri rj]
      dft_reflect [OF m n shifted_index_reflect [OF m] shifted_index_reflect [OF n]]
      complex_mod_cnj
    by (rule refl)
  then show ?thesis
    using ri rj assms get_power_spectrum_centre [OF assms(1) m n]
    by (simp add: rect_get_power_spectrum reflect_inside)
qed

theorem spectrum_point_symmetric_witness:
  "rect 3 3 [[1, 2, 3], [4, 5, 6], [7, 8, 10 :: real]] \<and> (0::nat) < 3 \<and> (1::nat) < 3
   \<and> rect 3 3 (get_power_spectrum [[1, 2, 3], [4, 5, 6], [7, 8, 10]])
   \<and> get_power_spectrum [[1, 2, 3], [4, 5, 6], [7, 8, 10]] ! 1 ! 1 = ln (46 + 1 / 10 ^ 9)
   \<and> reflect 3 0 = 2 \<and> reflect 3 1 = 1
   \<and> get_power_spectrum [[1, 2, 3], [4, 5, 6], [7, 8, 10]] ! 2 ! 1
       = get_power_spectrum [[1, 2, 3], [4, 5, 6], [7, 8, 10]] ! 0 ! 1"
proof -
  have r: "rect 3 3 [[1, 2, 3], [4, 5, 6], [7, 8, 10 :: real]]"
    by (simp add: rect_def)
  have a: "reflect 3 0 = 2" and b: "reflect 3 (Suc 0) = Suc 0"
    by (simp_all add: reflect_def)
  have t: "total [[1, 2, 3], [4, 5, 6], [7, 8, 10]] = 46"
    by (simp add: total_def)
  show ?thesis
    using r spectrum_point_symmetric [OF r, of 0 1] by (simp add: a b t)
qed

end
